theory Spec2Isabelle
  imports Main "HOL-Library.Multiset"
begin

section \<open>Data model (types/url.ts)\<close>

text \<open>
  A JavaScript \<open>Date\<close> is represented by its time value \<open>getTime()\<close>, the integral number
  of milliseconds since the epoch; comparing two dates with \<open>>\<close> compares these numbers.
  Strings are lists of characters, one character per code unit.
\<close>

type_synonym date = int

record ClickRecord =
  clickId :: string
  timestamp :: date
  source :: string
  userLocation :: string

record ShortenedUrl =
  urlId :: string
  originalUrl :: string
  shortCode :: string
  expiryDate :: date
  createdAt :: date
  clicks :: "ClickRecord list"
  isExpired :: bool

text \<open>
  A TypeScript \<open>number\<close> is a double. The service only ever asks whether it is an integer
  (\<open>Number.isInteger\<close>) and then compares and multiplies integers far below \<open>2^53\<close>, so a
  number is either an integral value or something else (a fraction, \<open>NaN\<close>, an infinity).
\<close>

datatype jsnumber = Integral int | NonIntegral

record UrlFormData =
  formOriginalUrl :: string
  validityMinutes :: jsnumber
  preferredShortcode :: "string option"

record UrlValidationResult =
  isValid :: bool
  error :: "string option"

text \<open>The exception \<open>new Error(message)\<close> thrown by the service.\<close>

datatype exn = Error string

section \<open>Data model of the logger (logger.ts)\<close>

text \<open>The levels \<open>'info' | 'warn' | 'error' | 'debug' | 'fatal'\<close>.\<close>

datatype log_level = LvInfo | LvWarn | LvError | LvDebug | LvFatal

text \<open>
  The field \<open>context?: any\<close> (here \<open>payload\<close>) holds whatever the caller passes: a value that \<open>JSON.stringify\<close>
  serialises (given by its text) or one it throws on (a cyclic object, a \<open>BigInt\<close>). The
  entries that \<open>sendToTestServer\<close> builds carry \<open>{ originalLog }\<close> or \<open>{ error, originalLog }\<close>,
  so an entry can hold an entry.
\<close>

datatype jsvalue = Json string | Unserialisable

datatype LogEntry =
  LogEntry (timestampL: string) (stack: string) (level: log_level) (package: string)
    (message: string) (payload: "jscontext option")
and jscontext =
  Value jsvalue
| Failure (caught: "string option") (originalLog: LogEntry)

text \<open>
  The item \<open>'logging-middleware-logs'\<close> of \<open>sessionStorage\<close>: absent, the serialised array of
  entries, or a text that \<open>JSON.parse\<close> fails on (or that is no array).
\<close>

datatype session_item = Absent | Stored "LogEntry list" | Corrupt

text \<open>How a request made by \<open>fetch\<close> ends: a response with its status, or a rejection.\<close>

datatype response = Response nat | Rejected string

text \<open>
  What \<open>new Date().toISOString()\<close> and \<open>getStackTrace()\<close> return at the moment
  \<open>sendToTestServer\<close> builds an entry of its own.
\<close>

record probe =
  probe_time :: string
  probe_stack :: string

section \<open>The platform the service runs on\<close>

text \<open>
  What the browser supplies is a parameter of the model:
  \<^item> \<open>has_window\<close>: \<open>typeof window !== 'undefined'\<close>;
  \<^item> \<open>url_protocol s\<close>: the \<open>protocol\<close> of \<open>new URL(s)\<close>, or \<open>None\<close> when the constructor throws;
  \<^item> \<open>setItem_ok xs\<close>: \<open>localStorage.setItem\<close> accepts the serialised array \<open>xs\<close>
    (it throws when the quota is exceeded);
  \<^item> \<open>has_navigator\<close>, \<open>navigator_language\<close>, \<open>resolved_timeZone\<close>: what \<open>getUserLocation\<close> reads
    (an undefined or empty string is the empty string);
  \<^item> \<open>session_setItem_ok xs\<close>: \<open>sessionStorage.setItem\<close> accepts the serialised array \<open>xs\<close>.
\<close>

record env =
  has_window :: bool
  url_protocol :: "string \<Rightarrow> string option"
  setItem_ok :: "ShortenedUrl list \<Rightarrow> bool"
  has_navigator :: bool
  navigator_language :: string
  resolved_timeZone :: string
  session_setItem_ok :: "LogEntry list \<Rightarrow> bool"

section \<open>The registry state (class UrlService)\<close>

text \<open>
  \<open>urls\<close> is the JavaScript \<open>Map\<close>: an association list in insertion order, which is the
  order \<open>values()\<close> and \<open>forEach\<close> iterate in. \<open>local_storage\<close> is the item stored under
  \<open>'shortened-urls'\<close> (\<open>None\<close> when absent), read as the array it serialises.
  \<open>setItem_calls\<close> counts the calls of \<open>localStorage.setItem\<close>, so that a write is observable
  even when it stores what was there already.

  \<open>logger_calls\<close> lists the calls of \<open>logger.info\<close>, \<open>logger.warn\<close>, \<open>logger.debug\<close> and
  \<open>logger.error\<close> that the service has made, each with its level, its first argument and its
  message; the package is \<open>'frontend'\<close> in all of them, and the context object is left out.
  What such a call does to the logger is the subject of the logger below, which returns
  normally on every input; the registry never reads the logger.
\<close>

record registry =
  urls :: "(string \<times> ShortenedUrl) list"
  local_storage :: "ShortenedUrl list option"
  setItem_calls :: nat
  logger_calls :: "(log_level \<times> string \<times> string) list"

definition logger_call :: "log_level \<Rightarrow> string \<Rightarrow> string \<Rightarrow> registry \<Rightarrow> registry" where
  "logger_call lvl stk msg st = st\<lparr>logger_calls := logger_calls st @ [(lvl, stk, msg)]\<rparr>"

text \<open>A number in a template string, such as \<open>${urlsArray.length}\<close>: a natural number in decimal.\<close>

fun decimal :: "nat \<Rightarrow> string" where
  "decimal n =
     (if n < 10 then [char_of (48 + n)] else decimal (n div 10) @ [char_of (48 + n mod 10)])"

subsection \<open>The operations of a JavaScript Map\<close>

definition Map_has :: "('k \<times> 'v) list \<Rightarrow> 'k \<Rightarrow> bool" where
  "Map_has m k = (k \<in> set (map fst m))"

definition Map_get :: "('k \<times> 'v) list \<Rightarrow> 'k \<Rightarrow> 'v option" where
  "Map_get m k = map_of m k"

text \<open>\<open>set\<close> replaces the value of a present key where it stands and appends a new key.\<close>

fun Map_set :: "'k \<Rightarrow> 'v \<Rightarrow> ('k \<times> 'v) list \<Rightarrow> ('k \<times> 'v) list" where
  "Map_set k v [] = [(k, v)]"
| "Map_set k v (p # ps) = (if fst p = k then (k, v) # ps else p # Map_set k v ps)"

definition Map_delete :: "'k \<Rightarrow> ('k \<times> 'v) list \<Rightarrow> ('k \<times> 'v) list" where
  "Map_delete k m = filter (\<lambda>p. fst p \<noteq> k) m"

definition Map_values :: "('k \<times> 'v) list \<Rightarrow> 'v list" where
  "Map_values m = map snd m"

subsection \<open>saveToStorage\<close>

text \<open>
  Outside a browser nothing happens. In a browser \<open>setItem\<close> is called with the values of the
  map; when it throws, the \<open>catch\<close> only logs and the stored item stays as it was.
\<close>

definition saveToStorage :: "env \<Rightarrow> registry \<Rightarrow> registry" where
  "saveToStorage e st =
     (if has_window e then
        (let urlsArray = Map_values (urls st) in
         if setItem_ok e urlsArray
         then logger_call LvDebug ''UrlService.saveToStorage''
                (''Saved '' @ decimal (length urlsArray) @ '' URLs to storage'')
                (st\<lparr>local_storage := Some urlsArray, setItem_calls := Suc (setItem_calls st)\<rparr>)
         else logger_call LvError ''UrlService.saveToStorage'' ''Failed to save URLs to storage''
                (st\<lparr>setItem_calls := Suc (setItem_calls st)\<rparr>))
      else st)"

subsection \<open>The three validations\<close>

definition valid :: UrlValidationResult where
  "valid = \<lparr>isValid = True, error = None\<rparr>"

definition invalid :: "string \<Rightarrow> UrlValidationResult" where
  "invalid msg = \<lparr>isValid = False, error = Some msg\<rparr>"

definition validateUrl :: "env \<Rightarrow> string \<Rightarrow> UrlValidationResult" where
  "validateUrl e url =
     (case url_protocol e url of
        None \<Rightarrow> invalid ''Please enter a valid URL''
      | Some protocol \<Rightarrow>
          if protocol \<notin> set [''http:'', ''https:'']
          then invalid ''URL must use HTTP or HTTPS protocol''
          else valid)"

text \<open>The character class \<open>[a-zA-Z0-9]\<close>, by code unit.\<close>

definition is_alnum :: "char \<Rightarrow> bool" where
  "is_alnum c =
     (let n = (of_char c :: nat) in
      (97 \<le> n \<and> n \<le> 122) \<or> (65 \<le> n \<and> n \<le> 90) \<or> (48 \<le> n \<and> n \<le> 57))"

text \<open>\<open>/^[a-zA-Z0-9]+$/.test(s)\<close>: one or more characters, all of the class.\<close>

definition alnum_test :: "string \<Rightarrow> bool" where
  "alnum_test s = (s \<noteq> [] \<and> list_all is_alnum s)"

definition validateShortcode :: "registry \<Rightarrow> string \<Rightarrow> UrlValidationResult" where
  "validateShortcode st shortcode =
     (if shortcode = [] then valid
      else if \<not> alnum_test shortcode
        then invalid ''Shortcode must contain only alphanumeric characters''
      else if length shortcode < 3 \<or> length shortcode > 20
        then invalid ''Shortcode must be between 3 and 20 characters''
      else if Map_has (urls st) shortcode
        then invalid ''This shortcode is already taken''
      else valid)"

fun validateValidityMinutes :: "jsnumber \<Rightarrow> UrlValidationResult" where
  "validateValidityMinutes NonIntegral = invalid ''Validity period must be a positive integer''"
| "validateValidityMinutes (Integral minutes) =
     (if minutes \<le> 0 then invalid ''Validity period must be a positive integer''
      else if minutes > 525600 then invalid ''Validity period cannot exceed 1 year''
      else valid)"

subsection \<open>generateShortcode\<close>

definition chars :: string where
  "chars = ''abcdefghijklmnopqrstuvwxyzABCDEFGHIJKLMNOPQRSTUVWXYZ0123456789''"

text \<open>\<open>s.charAt(i)\<close> is the empty string when \<open>i\<close> is out of range.\<close>

definition charAt :: "string \<Rightarrow> nat \<Rightarrow> string" where
  "charAt s i = (if i < length s then [s ! i] else [])"

text \<open>
  The random source is the sequence \<open>rnd 0, rnd 1, ...\<close> of the indices
  \<open>Math.floor(Math.random() * chars.length)\<close> that the coming calls of \<open>Math.random\<close> yield.
  As \<open>Math.random()\<close> lies in \<open>[0, 1)\<close>, each index is below \<open>length chars\<close>.
  The inner \<open>for\<close> loop appends six characters, read from position \<open>pos\<close> on.
\<close>

definition draw6 :: "(nat \<Rightarrow> nat) \<Rightarrow> nat \<Rightarrow> string" where
  "draw6 rnd pos = concat (map (\<lambda>i. charAt chars (rnd (pos + i))) [0..<6])"

text \<open>
  The \<open>do ... while (this.urls.has(result))\<close> loop has no bound on its retries, so it is a
  partial function: \<open>None\<close> is the loop that never ends.
\<close>

partial_function (option) generateShortcode_from ::
  "(nat \<Rightarrow> nat) \<Rightarrow> (string \<times> ShortenedUrl) list \<Rightarrow> nat \<Rightarrow> string option" where
  "generateShortcode_from rnd m pos =
     (let result = draw6 rnd pos in
      if Map_has m result then generateShortcode_from rnd m (pos + 6) else Some result)"

definition generateShortcode :: "(nat \<Rightarrow> nat) \<Rightarrow> registry \<Rightarrow> string option" where
  "generateShortcode rnd st = generateShortcode_from rnd (urls st) 0"

subsection \<open>getUserLocation\<close>

text \<open>\<open>s || d\<close> on strings: the empty (or undefined) string is falsy.\<close>

definition or_else :: "string \<Rightarrow> string \<Rightarrow> string" where
  "or_else s d = (if s = [] then d else s)"

definition getUserLocation :: "env \<Rightarrow> string" where
  "getUserLocation e =
     (if has_window e \<and> has_navigator e then
        or_else (navigator_language e) ''unknown'' @ ''/'' @ or_else (resolved_timeZone e) ''unknown''
      else ''unknown/unknown'')"

subsection \<open>shortenUrl\<close>

text \<open>
  \<open>throw new Error(v.error)\<close> for a failed validation \<open>v\<close>; the message of \<open>new Error(undefined)\<close>
  is empty.
\<close>

definition thrown :: "UrlValidationResult \<Rightarrow> exn" where
  "thrown v = Error (case error v of None \<Rightarrow> [] | Some msg \<Rightarrow> msg)"

text \<open>\<open>formData.preferredShortcode || ''\<close>.\<close>

definition or_empty :: "string option \<Rightarrow> string" where
  "or_empty p = (case p of None \<Rightarrow> [] | Some s \<Rightarrow> s)"

text \<open>The number of minutes, read after \<open>validateValidityMinutes\<close> has accepted it.\<close>

fun minutes_of :: "jsnumber \<Rightarrow> int" where
  "minutes_of (Integral m) = m"
| "minutes_of NonIntegral = 0"

text \<open>
  \<open>shortenUrl e rnd now uuid formData st\<close>: \<open>now\<close> is the reading of \<open>new Date()\<close>, \<open>uuid\<close> what
  \<open>crypto.randomUUID()\<close> returns. The result is \<open>None\<close> when \<open>generateShortcode\<close> never
  returns; otherwise it is the thrown error or the returned record, with the state the
  call leaves behind.
\<close>

definition shortenUrl ::
  "env \<Rightarrow> (nat \<Rightarrow> nat) \<Rightarrow> date \<Rightarrow> string \<Rightarrow> UrlFormData \<Rightarrow> registry
     \<Rightarrow> ((exn + ShortenedUrl) \<times> registry) option" where
  "shortenUrl e rnd now uuid formData st =
     (let urlValidation = validateUrl e (formOriginalUrl formData) in
      if \<not> isValid urlValidation then Some (Inl (thrown urlValidation), st)
      else
        let shortcodeValidation = validateShortcode st (or_empty (preferredShortcode formData)) in
        if \<not> isValid shortcodeValidation then Some (Inl (thrown shortcodeValidation), st)
        else
          let validityValidation = validateValidityMinutes (validityMinutes formData) in
          if \<not> isValid validityValidation then Some (Inl (thrown validityValidation), st)
          else
            (case (if or_empty (preferredShortcode formData) \<noteq> []
                   then Some (or_empty (preferredShortcode formData))
                   else generateShortcode rnd st) of
               None \<Rightarrow> None
             | Some code \<Rightarrow>
                 let expiry = now + minutes_of (validityMinutes formData) * 60 * 1000;
                     shortenedUrl = \<lparr>urlId = uuid, originalUrl = formOriginalUrl formData,
                       shortCode = code, expiryDate = expiry, createdAt = now,
                       clicks = [], isExpired = False\<rparr>
                 in Some (Inr shortenedUrl,
                      logger_call LvInfo ''UrlService.shortenUrl'' ''URL shortened successfully''
                        (saveToStorage e (st\<lparr>urls := Map_set code shortenedUrl (urls st)\<rparr>)))))"

subsection \<open>getUrlByShortcode, recordClick, getAllUrls, deleteUrl, clearAllUrls\<close>

text \<open>
  The records of the map are objects: \<open>url.isExpired = true\<close> and \<open>url.clicks.push(...)\<close>
  change the record that the map holds under \<open>shortCode\<close>, where it stands.
\<close>

definition getUrlByShortcode ::
  "env \<Rightarrow> date \<Rightarrow> string \<Rightarrow> registry \<Rightarrow> ShortenedUrl option \<times> registry" where
  "getUrlByShortcode e now code st =
     (case Map_get (urls st) code of
        None \<Rightarrow> (None, st)
      | Some url \<Rightarrow>
          if now > expiryDate url then
            (None, logger_call LvWarn ''UrlService.getUrlByShortcode'' ''Attempted to access expired URL''
               (saveToStorage e (st\<lparr>urls := Map_set code (url\<lparr>isExpired := True\<rparr>) (urls st)\<rparr>)))
          else (Some url, st))"

text \<open>
  \<open>recordClick e now clickTime uuid code src st\<close>: \<open>now\<close> is the clock as \<open>getUrlByShortcode\<close>
  reads it, \<open>clickTime\<close> the later reading that stamps the click; \<open>src\<close> is \<open>None\<close> when the
  caller leaves the source out.
\<close>

definition recordClick ::
  "env \<Rightarrow> date \<Rightarrow> date \<Rightarrow> string \<Rightarrow> string \<Rightarrow> string option \<Rightarrow> registry \<Rightarrow> bool \<times> registry" where
  "recordClick e now clickTime uuid code src st =
     (case getUrlByShortcode e now code st of
        (None, st1) \<Rightarrow> (False, st1)
      | (Some url, st1) \<Rightarrow>
          let clickRecord = \<lparr>clickId = uuid, timestamp = clickTime,
                source = (case src of None \<Rightarrow> ''direct'' | Some s \<Rightarrow> s),
                userLocation = getUserLocation e\<rparr>
          in (True, logger_call LvInfo ''UrlService.recordClick'' ''Click recorded''
                (saveToStorage e
                  (st1\<lparr>urls := Map_set code (url\<lparr>clicks := clicks url @ [clickRecord]\<rparr>) (urls st1)\<rparr>))))"

text \<open>
  \<open>Array.prototype.sort\<close> is stable; with the comparator \<open>b.createdAt - a.createdAt\<close> it is the
  stable sort by descending \<open>createdAt\<close>.
\<close>

definition sort_newest_first :: "ShortenedUrl list \<Rightarrow> ShortenedUrl list" where
  "sort_newest_first xs = sort_key (\<lambda>u. - createdAt u) xs"

text \<open>
  The \<open>forEach\<close> loop of \<open>getAllUrls\<close>: it recomputes the flag of every record, in the order
  of the map, and calls \<open>logger.info\<close> for each record that has just expired. The result is
  the new entries with the calls made.
\<close>

fun forEach_refresh ::
  "date \<Rightarrow> (string \<times> ShortenedUrl) list
     \<Rightarrow> (string \<times> ShortenedUrl) list \<times> (log_level \<times> string \<times> string) list" where
  "forEach_refresh now [] = ([], [])"
| "forEach_refresh now ((k, url) # rest) =
     (let wasExpired = isExpired url;
          url1 = url\<lparr>isExpired := now > expiryDate url\<rparr>;
          (rest1, calls) = forEach_refresh now rest
      in ((k, url1) # rest1,
          (if \<not> wasExpired \<and> isExpired url1
           then [(LvInfo, ''UrlService.getAllUrls'', ''URL expired'')] else []) @ calls))"

definition getAllUrls :: "env \<Rightarrow> date \<Rightarrow> registry \<Rightarrow> ShortenedUrl list \<times> registry" where
  "getAllUrls e now st =
     (let (refreshed, calls) = forEach_refresh now (urls st);
          st1 = st\<lparr>urls := refreshed, logger_calls := logger_calls st @ calls\<rparr>;
          st2 = saveToStorage e st1
      in (sort_newest_first (Map_values (urls st2)), st2))"

definition deleteUrl :: "env \<Rightarrow> string \<Rightarrow> registry \<Rightarrow> bool \<times> registry" where
  "deleteUrl e code st =
     (let deleted = Map_has (urls st) code;
          st1 = st\<lparr>urls := Map_delete code (urls st)\<rparr>
      in if deleted
         then (True, logger_call LvInfo ''UrlService.deleteUrl'' ''URL deleted'' (saveToStorage e st1))
         else (False, st1))"

definition clearAllUrls :: "env \<Rightarrow> registry \<Rightarrow> registry" where
  "clearAllUrls e st =
     logger_call LvInfo ''UrlService.clearAllUrls'' ''All URLs cleared'' (saveToStorage e (st\<lparr>urls := []\<rparr>))"

section \<open>The logger (class LoggingMiddleware)\<close>

text \<open>
  \<open>logs\<close> is the primary buffer, \<open>session\<close> the mirrored one in \<open>sessionStorage\<close>.
  \<open>requests\<close> lists the POSTs that \<open>fetch\<close> has been called with so far (endpoint and body),
  so that a delivery attempt is observable.
\<close>

record logger =
  logs :: "LogEntry list"
  testServerEndpoint :: string
  session :: session_item
  requests :: "(string \<times> LogEntry) list"

definition maxLogs :: nat where
  "maxLogs = 1000"

text \<open>
  Every operation returns either normally, with the state it leaves, or by a raised error.
  \<open>try_catch body handler\<close> is \<open>try { body } catch (error) { handler }\<close>.
\<close>

definition try_catch :: "exn + 'a \<Rightarrow> (exn \<Rightarrow> exn + 'a) \<Rightarrow> exn + 'a" where
  "try_catch body handler = (case body of Inl err \<Rightarrow> handler err | Inr x \<Rightarrow> Inr x)"

definition and_then :: "exn + 'a \<Rightarrow> ('a \<Rightarrow> exn + 'b) \<Rightarrow> exn + 'b" where
  "and_then r f = (case r of Inl err \<Rightarrow> Inl err | Inr x \<Rightarrow> f x)"

subsection \<open>What the platform calls do\<close>

text \<open>\<open>JSON.stringify\<close> throws exactly when it meets a value it cannot serialise.\<close>

fun stringify_ok :: "LogEntry \<Rightarrow> bool" and stringify_ok_context :: "jscontext \<Rightarrow> bool" where
  "stringify_ok (LogEntry ts s l p m None) = True"
| "stringify_ok (LogEntry ts s l p m (Some c)) = stringify_ok_context c"
| "stringify_ok_context (Value v) = (v \<noteq> Unserialisable)"
| "stringify_ok_context (Failure err orig) = stringify_ok orig"

text \<open>\<open>existingLogs ? JSON.parse(existingLogs) : []\<close>, followed by \<open>logs.push\<close>.\<close>

fun parse_existing :: "session_item \<Rightarrow> exn + LogEntry list" where
  "parse_existing Absent = Inr []"
| "parse_existing (Stored xs) = Inr xs"
| "parse_existing Corrupt = Inl (Error ''SyntaxError'')"

text \<open>\<open>sessionStorage.setItem('logging-middleware-logs', JSON.stringify(logs))\<close>.\<close>

definition session_setItem :: "env \<Rightarrow> LogEntry list \<Rightarrow> logger \<Rightarrow> exn + logger" where
  "session_setItem e xs st =
     (if \<not> list_all stringify_ok xs then Inl (Error ''TypeError'')
      else if \<not> session_setItem_ok e xs then Inl (Error ''QuotaExceededError'')
      else Inr (st\<lparr>session := Stored xs\<rparr>))"

text \<open>\<open>response.ok\<close>: the status is in the range 200 to 299.\<close>

definition response_ok :: "nat \<Rightarrow> bool" where
  "response_ok status = (200 \<le> status \<and> status \<le> 299)"

subsection \<open>storeInSession\<close>

text \<open>
  \<open>logs.splice(0, logs.length - 100)\<close> removes the first \<open>logs.length - 100\<close> entries.
  Whatever the \<open>try\<close> block throws is caught and dropped.
\<close>

definition storeInSession :: "env \<Rightarrow> LogEntry \<Rightarrow> logger \<Rightarrow> exn + logger" where
  "storeInSession e logEntry st =
     (if has_window e then
        try_catch
          (and_then (parse_existing (session st)) (\<lambda>existing.
             let pushed = existing @ [logEntry];
                 kept = (if length pushed > 100 then drop (length pushed - 100) pushed else pushed)
             in session_setItem e kept st))
          (\<lambda>err. Inr st)
      else Inr st)"

subsection \<open>addLog\<close>

text \<open>\<open>this.logs.slice(-this.maxLogs)\<close> keeps the last \<open>maxLogs\<close> entries.\<close>

definition addLog :: "env \<Rightarrow> LogEntry \<Rightarrow> logger \<Rightarrow> exn + logger" where
  "addLog e logEntry st =
     (let pushed = logs st @ [logEntry];
          kept = (if length pushed > maxLogs then drop (length pushed - maxLogs) pushed else pushed)
      in storeInSession e logEntry (st\<lparr>logs := kept\<rparr>))"

subsection \<open>sendToTestServer\<close>

text \<open>The two entries that \<open>sendToTestServer\<close> writes about a failed delivery.\<close>

definition failed_entry :: "probe \<Rightarrow> nat \<Rightarrow> LogEntry \<Rightarrow> LogEntry" where
  "failed_entry pr status logEntry =
     LogEntry (probe_time pr) (probe_stack pr) LvWarn ''LoggingMiddleware''
       (''Failed to send log to test server: '' @ decimal status)
       (Some (Failure None logEntry))"

definition unavailable_entry :: "probe \<Rightarrow> exn \<Rightarrow> LogEntry \<Rightarrow> LogEntry" where
  "unavailable_entry pr err logEntry =
     LogEntry (probe_time pr) (probe_stack pr) LvWarn ''LoggingMiddleware''
       ''Test server unavailable''
       (Some (Failure (Some (case err of Error msg \<Rightarrow> msg)) logEntry))"

text \<open>
  \<open>sendToTestServer\<close> is an \<open>async\<close> function. Its call runs up to the \<open>await\<close>: in a browser
  the body is serialised and \<open>fetch\<close> is called; when \<open>JSON.stringify\<close> throws there, the \<open>catch\<close>
  runs at once. Outside a browser nothing is sent.
\<close>

definition sendToTestServer_call :: "env \<Rightarrow> probe \<Rightarrow> LogEntry \<Rightarrow> logger \<Rightarrow> exn + logger" where
  "sendToTestServer_call e pr logEntry st =
     try_catch
       (if has_window e then
          (if stringify_ok logEntry
           then Inr (st\<lparr>requests := requests st @ [(testServerEndpoint st, logEntry)]\<rparr>)
           else Inl (Error ''TypeError''))
        else Inr st)
       (\<lambda>err. storeInSession e (unavailable_entry pr err logEntry) st)"

text \<open>
  The rest of the function runs when the request ends, in a later turn of the event loop:
  a response that is not \<open>ok\<close> is noted in the session store, and a rejection reaches the
  \<open>catch\<close>.
\<close>

definition sendToTestServer_settle ::
  "env \<Rightarrow> probe \<Rightarrow> LogEntry \<Rightarrow> response \<Rightarrow> logger \<Rightarrow> exn + logger" where
  "sendToTestServer_settle e pr logEntry r st =
     try_catch
       (case r of
          Rejected reason \<Rightarrow> Inl (Error reason)
        | Response status \<Rightarrow>
            if \<not> response_ok status then storeInSession e (failed_entry pr status logEntry) st
            else Inr st)
       (\<lambda>err. storeInSession e (unavailable_entry pr err logEntry) st)"

subsection \<open>Log and its convenience forms\<close>

text \<open>
  \<open>Log e ts pr stack level packageName message context st\<close>: \<open>ts\<close> is the reading of
  \<open>new Date().toISOString()\<close> that stamps the entry.
\<close>

definition Log ::
  "env \<Rightarrow> string \<Rightarrow> probe \<Rightarrow> string \<Rightarrow> log_level \<Rightarrow> string \<Rightarrow> string \<Rightarrow> jscontext option
     \<Rightarrow> logger \<Rightarrow> exn + logger" where
  "Log e ts pr stk lvl packageName msg ctx st =
     (let logEntry = LogEntry ts stk lvl packageName msg ctx in
      and_then (addLog e logEntry st) (sendToTestServer_call e pr logEntry))"

definition info ::
  "env \<Rightarrow> string \<Rightarrow> probe \<Rightarrow> string \<Rightarrow> string \<Rightarrow> string \<Rightarrow> jscontext option \<Rightarrow> logger \<Rightarrow> exn + logger" where
  "info e ts pr stk packageName msg ctx st = Log e ts pr stk LvInfo packageName msg ctx st"

definition warn ::
  "env \<Rightarrow> string \<Rightarrow> probe \<Rightarrow> string \<Rightarrow> string \<Rightarrow> string \<Rightarrow> jscontext option \<Rightarrow> logger \<Rightarrow> exn + logger" where
  "warn e ts pr stk packageName msg ctx st = Log e ts pr stk LvWarn packageName msg ctx st"

definition error_log ::
  "env \<Rightarrow> string \<Rightarrow> probe \<Rightarrow> string \<Rightarrow> string \<Rightarrow> string \<Rightarrow> jscontext option \<Rightarrow> logger \<Rightarrow> exn + logger" where
  "error_log e ts pr stk packageName msg ctx st = Log e ts pr stk LvError packageName msg ctx st"

definition debug ::
  "env \<Rightarrow> string \<Rightarrow> probe \<Rightarrow> string \<Rightarrow> string \<Rightarrow> string \<Rightarrow> jscontext option \<Rightarrow> logger \<Rightarrow> exn + logger" where
  "debug e ts pr stk packageName msg ctx st = Log e ts pr stk LvDebug packageName msg ctx st"

definition fatal ::
  "env \<Rightarrow> string \<Rightarrow> probe \<Rightarrow> string \<Rightarrow> string \<Rightarrow> string \<Rightarrow> jscontext option \<Rightarrow> logger \<Rightarrow> exn + logger" where
  "fatal e ts pr stk packageName msg ctx st = Log e ts pr stk LvFatal packageName msg ctx st"

subsection \<open>getLogs, clearLogs, setTestServerEndpoint\<close>

definition getLogs :: "logger \<Rightarrow> LogEntry list" where
  "getLogs st = logs st"

definition clearLogs :: "env \<Rightarrow> logger \<Rightarrow> exn + logger" where
  "clearLogs e st =
     (let st1 = st\<lparr>logs := []\<rparr> in
      if has_window e then Inr (st1\<lparr>session := Absent\<rparr>) else Inr st1)"

definition setTestServerEndpoint :: "string \<Rightarrow> logger \<Rightarrow> exn + logger" where
  "setTestServerEndpoint endpoint st = Inr (st\<lparr>testServerEndpoint := endpoint\<rparr>)"

subsection \<open>Sequences of operations\<close>

text \<open>
  The ways of calling the logger, and what happens to it over time: a call of \<open>Log\<close> or of
  one of its convenience forms, the end of a request made earlier, \<open>clearLogs\<close> and
  \<open>setTestServerEndpoint\<close>. Each event runs to completion before the next, as the event
  loop has it.
\<close>

datatype call_form = ByLog log_level | ByInfo | ByWarn | ByError | ByDebug | ByFatal

fun level_of :: "call_form \<Rightarrow> log_level" where
  "level_of (ByLog lvl) = lvl"
| "level_of ByInfo = LvInfo"
| "level_of ByWarn = LvWarn"
| "level_of ByError = LvError"
| "level_of ByDebug = LvDebug"
| "level_of ByFatal = LvFatal"

fun invoke ::
  "env \<Rightarrow> call_form \<Rightarrow> string \<Rightarrow> probe \<Rightarrow> string \<Rightarrow> string \<Rightarrow> string \<Rightarrow> jscontext option
     \<Rightarrow> logger \<Rightarrow> exn + logger" where
  "invoke e (ByLog lvl) ts pr stk p m c st = Log e ts pr stk lvl p m c st"
| "invoke e ByInfo ts pr stk p m c st = info e ts pr stk p m c st"
| "invoke e ByWarn ts pr stk p m c st = warn e ts pr stk p m c st"
| "invoke e ByError ts pr stk p m c st = error_log e ts pr stk p m c st"
| "invoke e ByDebug ts pr stk p m c st = debug e ts pr stk p m c st"
| "invoke e ByFatal ts pr stk p m c st = fatal e ts pr stk p m c st"

datatype event =
  Call call_form string probe string string string "jscontext option"
| Settle probe LogEntry response
| ClearLogs
| SetEndpoint string

fun step :: "env \<Rightarrow> event \<Rightarrow> logger \<Rightarrow> exn + logger" where
  "step e (Call how ts pr stk p m c) st = invoke e how ts pr stk p m c st"
| "step e (Settle pr logEntry r) st = sendToTestServer_settle e pr logEntry r st"
| "step e ClearLogs st = clearLogs e st"
| "step e (SetEndpoint endpoint) st = setTestServerEndpoint endpoint st"

fun run :: "env \<Rightarrow> event list \<Rightarrow> logger \<Rightarrow> exn + logger" where
  "run e [] st = Inr st"
| "run e (ev # evs) st = and_then (step e ev st) (run e evs)"

section \<open>What the two buffers should hold\<close>

text \<open>The last \<open>n\<close> elements of a list, in their order.\<close>

definition keep_last :: "nat \<Rightarrow> 'a list \<Rightarrow> 'a list" where
  "keep_last n xs = drop (length xs - n) xs"

text \<open>The entries of the session item, and the bound the mirrored buffer is held to.\<close>

fun stored_entries :: "session_item \<Rightarrow> LogEntry list" where
  "stored_entries Absent = []"
| "stored_entries (Stored xs) = xs"
| "stored_entries Corrupt = []"

definition session_bounded :: "session_item \<Rightarrow> bool" where
  "session_bounded item = (length (stored_entries item) \<le> 100)"

text \<open>
  \<open>primary_trace acc evs\<close>: every entry logged since the last \<open>clearLogs\<close>, oldest first, with
  no bound, starting from the entries \<open>acc\<close>.
\<close>

fun primary_trace :: "LogEntry list \<Rightarrow> event list \<Rightarrow> LogEntry list" where
  "primary_trace acc [] = acc"
| "primary_trace acc (Call how ts pr stk p m c # evs)
     = primary_trace (acc @ [LogEntry ts stk (level_of how) p m c]) evs"
| "primary_trace acc (Settle pr logEntry r # evs) = primary_trace acc evs"
| "primary_trace acc (ClearLogs # evs) = primary_trace [] evs"
| "primary_trace acc (SetEndpoint endpoint # evs) = primary_trace acc evs"

text \<open>
  \<open>secondary_trace acc evs\<close>: in a browser whose session store takes every write, every entry
  handed to \<open>storeInSession\<close> since the last \<open>clearLogs\<close>, oldest first, with no bound: the
  logged entries and the notes about failed deliveries.
\<close>

fun secondary_trace :: "LogEntry list \<Rightarrow> event list \<Rightarrow> LogEntry list" where
  "secondary_trace acc [] = acc"
| "secondary_trace acc (Call how ts pr stk p m c # evs)
     = secondary_trace (acc @ [LogEntry ts stk (level_of how) p m c]) evs"
| "secondary_trace acc (Settle pr logEntry (Response status) # evs)
     = secondary_trace (if response_ok status then acc else acc @ [failed_entry pr status logEntry]) evs"
| "secondary_trace acc (Settle pr logEntry (Rejected reason) # evs)
     = secondary_trace (acc @ [unavailable_entry pr (Error reason) logEntry]) evs"
| "secondary_trace acc (ClearLogs # evs) = secondary_trace [] evs"
| "secondary_trace acc (SetEndpoint endpoint # evs) = secondary_trace acc evs"

text \<open>Every entry that the events carry can be serialised.\<close>

fun serialisable :: "event \<Rightarrow> bool" where
  "serialisable (Call how ts pr stk p m c) = stringify_ok (LogEntry ts stk (level_of how) p m c)"
| "serialisable (Settle pr logEntry r) = stringify_ok logEntry"
| "serialisable ClearLogs = True"
| "serialisable (SetEndpoint endpoint) = True"

section \<open>Sequential clicks and well-formed registries\<close>

text \<open>
  Every record enters the map under its own \<open>shortCode\<close> (in \<open>shortenUrl\<close> and in
  \<open>loadFromStorage\<close>), and a \<open>Map\<close> holds a key once.
\<close>

definition keyed :: "registry \<Rightarrow> bool" where
  "keyed st = (distinct (map fst (urls st)) \<and> list_all (\<lambda>(k, u). shortCode u = k) (urls st))"

text \<open>The readings and arguments of one call of \<open>recordClick\<close>, and a run of such calls.\<close>

record click_call =
  call_now :: date
  call_clickTime :: date
  call_uuid :: string
  call_source :: "string option"

definition click_of :: "env \<Rightarrow> click_call \<Rightarrow> ClickRecord" where
  "click_of e c = \<lparr>clickId = call_uuid c, timestamp = call_clickTime c,
     source = (case call_source c of None \<Rightarrow> ''direct'' | Some s \<Rightarrow> s),
     userLocation = getUserLocation e\<rparr>"

fun recordClicks :: "env \<Rightarrow> string \<Rightarrow> click_call list \<Rightarrow> registry \<Rightarrow> bool list \<times> registry" where
  "recordClicks e code [] st = ([], st)"
| "recordClicks e code (c # cs) st =
     (let (ok, st1) = recordClick e (call_now c) (call_clickTime c) (call_uuid c) code (call_source c) st;
          (oks, st2) = recordClicks e code cs st1
      in (ok # oks, st2))"

section \<open>Sample inputs\<close>

text \<open>
  A browser whose stores accept every write. \<open>sample_protocol\<close> stands for the URL parser on
  the sample addresses used below.
\<close>

definition sample_protocol :: "string \<Rightarrow> string option" where
  "sample_protocol s =
     (if take 8 s = ''https://'' \<and> 8 < length s then Some ''https:''
      else if take 7 s = ''http://'' \<and> 7 < length s then Some ''http:''
      else if take 6 s = ''ftp://'' \<and> 6 < length s then Some ''ftp:''
      else None)"

definition sample_env :: env where
  "sample_env = \<lparr>has_window = True, url_protocol = sample_protocol, setItem_ok = (\<lambda>xs. True),
     has_navigator = True, navigator_language = ''en-US'', resolved_timeZone = ''UTC'',
     session_setItem_ok = (\<lambda>xs. True)\<rparr>"

definition empty_registry :: registry where
  "empty_registry = \<lparr>urls = [], local_storage = None, setItem_calls = 0, logger_calls = []\<rparr>"

definition sample_form :: UrlFormData where
  "sample_form = \<lparr>formOriginalUrl = ''https://example.com/a'', validityMinutes = Integral 1,
     preferredShortcode = Some ''abc123''\<rparr>"

text \<open>The record that \<open>shortenUrl\<close> makes of \<open>sample_form\<close> at time 1000.\<close>

definition sample_url :: ShortenedUrl where
  "sample_url = \<lparr>urlId = ''id-1'', originalUrl = ''https://example.com/a'', shortCode = ''abc123'',
     expiryDate = 61000, createdAt = 1000, clicks = [], isExpired = False\<rparr>"

definition created_calls :: "(log_level \<times> string \<times> string) list" where
  "created_calls = [(LvDebug, ''UrlService.saveToStorage'', ''Saved 1 URLs to storage''),
     (LvInfo, ''UrlService.shortenUrl'', ''URL shortened successfully'')]"

definition sample_registry :: registry where
  "sample_registry = \<lparr>urls = [(''abc123'', sample_url)], local_storage = Some [sample_url],
     setItem_calls = 1, logger_calls = created_calls\<rparr>"

text \<open>The sample record with its flag set, a second record made later, and their registries.\<close>

definition expired_url :: ShortenedUrl where
  "expired_url = sample_url\<lparr>isExpired := True\<rparr>"

definition expired_registry :: registry where
  "expired_registry = \<lparr>urls = [(''abc123'', expired_url)], local_storage = Some [expired_url],
     setItem_calls = 2,
     logger_calls = created_calls @ [(LvDebug, ''UrlService.saveToStorage'', ''Saved 1 URLs to storage''),
       (LvWarn, ''UrlService.getUrlByShortcode'', ''Attempted to access expired URL'')]\<rparr>"

definition second_url :: ShortenedUrl where
  "second_url = \<lparr>urlId = ''id-2'', originalUrl = ''http://example.org/b'', shortCode = ''xyz789'',
     expiryDate = 1805000, createdAt = 5000, clicks = [], isExpired = False\<rparr>"

definition two_registry :: registry where
  "two_registry = \<lparr>urls = [(''abc123'', sample_url), (''xyz789'', second_url)],
     local_storage = Some [sample_url, second_url], setItem_calls = 2, logger_calls = []\<rparr>"

text \<open>Two calls of \<open>recordClick\<close>, at 2000 and at 3000.\<close>

definition first_click :: click_call where
  "first_click = \<lparr>call_now = 2000, call_clickTime = 2001, call_uuid = ''c-1'', call_source = None\<rparr>"

definition second_click :: click_call where
  "second_click = \<lparr>call_now = 3000, call_clickTime = 3001, call_uuid = ''c-2'',
     call_source = Some ''https://ref.example''\<rparr>"

text \<open>A random source that draws index 0 for ever, and a registry that holds \<open>aaaaaa\<close>.\<close>

definition zero_source :: "nat \<Rightarrow> nat" where
  "zero_source i = 0"

definition taken_registry :: registry where
  "taken_registry = \<lparr>urls = [(''aaaaaa'', sample_url\<lparr>shortCode := ''aaaaaa''\<rparr>)],
     local_storage = None, setItem_calls = 0, logger_calls = []\<rparr>"

text \<open>A form that names no shortcode and asks for thirty minutes.\<close>

definition auto_form :: UrlFormData where
  "auto_form = \<lparr>formOriginalUrl = ''http://example.org/b'', validityMinutes = Integral 30,
     preferredShortcode = None\<rparr>"

text \<open>A random source that draws \<open>aaaaaa\<close> first and \<open>bbbbbb\<close> from then on.\<close>

definition retry_source :: "nat \<Rightarrow> nat" where
  "retry_source i = (if i < 6 then 0 else 1)"

text \<open>A logger whose two buffers are full, a call, and the failed delivery of its entry.\<close>

definition old_entry :: LogEntry where
  "old_entry = LogEntry ''2024-01-01T00:00:00.000Z'' ''boot'' LvDebug ''frontend'' ''old'' None"

definition new_entry :: LogEntry where
  "new_entry = LogEntry ''2024-01-01T00:00:01.000Z'' ''UrlService.shortenUrl'' LvInfo ''frontend''
     ''URL shortened successfully'' (Some (Value (Json ''{}'')))"

definition sample_probe :: probe where
  "sample_probe = \<lparr>probe_time = ''2024-01-01T00:00:02.000Z'', probe_stack = ''at settle''\<rparr>"

definition full_logger :: logger where
  "full_logger = \<lparr>logs = replicate 1000 old_entry,
     testServerEndpoint = ''http://localhost:3001/api/logs'',
     session = Stored (replicate 100 old_entry), requests = []\<rparr>"

definition sample_events :: "event list" where
  "sample_events =
     [Call ByInfo ''2024-01-01T00:00:01.000Z'' sample_probe ''UrlService.shortenUrl'' ''frontend''
        ''URL shortened successfully'' (Some (Value (Json ''{}''))),
      Settle sample_probe new_entry (Response 500)]"

text \<open>The logger as constructed, in a fresh session, and after the sample call.\<close>

definition fresh_logger :: logger where
  "fresh_logger = \<lparr>logs = [], testServerEndpoint = ''http://localhost:3001/api/logs'',
     session = Absent, requests = []\<rparr>"

definition logged_once :: logger where
  "logged_once = \<lparr>logs = [new_entry], testServerEndpoint = ''http://localhost:3001/api/logs'',
     session = Stored [new_entry], requests = [(''http://localhost:3001/api/logs'', new_entry)]\<rparr>"

section \<open>Properties of the registry\<close>

declare decimal.simps [simp del]

subsection \<open>Maps, saving and the shortcode loop\<close>

lemma Map_delete_absent: "\<not> Map_has m k \<Longrightarrow> Map_delete k m = m"
  by (induction m) (auto simp: Map_has_def Map_delete_def)

lemma Map_get_set_same: "Map_get (Map_set k v m) k = Some v"
  by (induction m) (auto simp: Map_get_def)

lemma Map_get_set_other: "k' \<noteq> k \<Longrightarrow> Map_get (Map_set k v m) k' = Map_get m k'"
  by (induction m) (auto simp: Map_get_def)

lemma Map_has_get: "Map_has m k \<longleftrightarrow> Map_get m k \<noteq> None"
  by (induction m) (auto simp: Map_has_def Map_get_def)

lemma Map_has_set: "Map_has (Map_set k v m) k' \<longleftrightarrow> k' = k \<or> Map_has m k'"
  by (induction m) (auto simp: Map_has_def)

lemma keys_Map_set_present: "Map_has m k \<Longrightarrow> map fst (Map_set k v m) = map fst m"
  by (induction m) (auto simp: Map_has_def)

lemma Map_set_absent: "\<not> Map_has m k \<Longrightarrow> Map_set k v m = m @ [(k, v)]"
  by (induction m) (auto simp: Map_has_def)

lemma Map_get_values: "Map_get m k = Some v \<Longrightarrow> v \<in> set (Map_values m)"
  by (induction m) (auto simp: Map_get_def Map_values_def split: if_splits)

lemma Map_get_delete_other: "k \<noteq> code \<Longrightarrow> Map_get (Map_delete code m) k = Map_get m k"
  by (induction m) (auto simp: Map_get_def Map_delete_def)

lemma Map_has_delete: "\<not> Map_has (Map_delete code m) code"
  by (auto simp: Map_has_def Map_delete_def)

lemma logger_call_fields [simp]:
  "urls (logger_call lvl stk msg st) = urls st"
  "local_storage (logger_call lvl stk msg st) = local_storage st"
  "setItem_calls (logger_call lvl stk msg st) = setItem_calls st"
  by (simp_all add: logger_call_def)

lemma urls_saveToStorage [simp]: "urls (saveToStorage e st) = urls st"
  by (simp add: saveToStorage_def Let_def)

lemma saveToStorage_counts:
  "has_window e \<Longrightarrow> setItem_calls (saveToStorage e st) = Suc (setItem_calls st)"
  by (simp add: saveToStorage_def Let_def)

lemma saveToStorage_persists:
  "has_window e \<Longrightarrow> setItem_ok e (Map_values (urls st)) \<Longrightarrow>
   local_storage (saveToStorage e st) = Some (Map_values (urls st))"
  by (simp add: saveToStorage_def Let_def)

lemma keyed_has:
  "keyed st \<Longrightarrow> Map_has (urls st) s \<longleftrightarrow> (\<exists>u \<in> set (Map_values (urls st)). shortCode u = s)"
  unfolding keyed_def Map_has_def Map_values_def by (force simp: list_all_iff)

lemma generateShortcode_from_sound:
  "generateShortcode_from rnd m pos = Some y \<Longrightarrow> \<not> Map_has m y \<and> (\<exists>j. y = draw6 rnd (pos + 6 * j))"
proof (induction rule: generateShortcode_from.raw_induct[rotated 1, consumes 1])
  case (1 gen rnd m pos y)
  show ?case
  proof (cases "Map_has m (draw6 rnd pos)")
    case True
    with 1(2) have "gen rnd m (pos + 6) = Some y" by (simp add: Let_def)
    from 1(1)[OF this] obtain j where "\<not> Map_has m y" "y = draw6 rnd (pos + 6 + 6 * j)" by blast
    then have "y = draw6 rnd (pos + 6 * Suc j)" by (simp add: add.assoc)
    with \<open>\<not> Map_has m y\<close> show ?thesis by blast
  next
    case False
    with 1(2) have "y = draw6 rnd pos" by (simp add: Let_def)
    with False show ?thesis by (auto intro: exI[of _ 0])
  qed
qed

lemma generateShortcode_from_terminates:
  "\<not> Map_has m (draw6 rnd (pos + 6 * k)) \<Longrightarrow> \<exists>y. generateShortcode_from rnd m pos = Some y"
proof (induction k arbitrary: pos)
  case 0
  then show ?case by (subst generateShortcode_from.simps) (simp add: Let_def)
next
  case (Suc k)
  have "\<not> Map_has m (draw6 rnd ((pos + 6) + 6 * k))" using Suc.prems by (simp add: add.assoc)
  from Suc.IH[OF this] obtain y where y: "generateShortcode_from rnd m (pos + 6) = Some y" by blast
  show ?case by (subst generateShortcode_from.simps) (simp add: Let_def y)
qed

lemma generateShortcode_from_all_taken:
  assumes "\<forall>p. Map_has m (draw6 rnd p)"
  shows "generateShortcode_from rnd m pos = None"
proof (cases "generateShortcode_from rnd m pos")
  case None
  then show ?thesis .
next
  case (Some y)
  from generateShortcode_from_sound[OF Some] assms show ?thesis by blast
qed

lemma draw6_length:
  assumes "\<forall>i. rnd i < length chars"
  shows "length (draw6 rnd pos) = 6"
  using assms by (simp add: draw6_def charAt_def upt_rec[of _ 6])

lemma is_alnum_chars: "list_all is_alnum chars"
  by (simp add: chars_def is_alnum_def)

lemma draw6_chars:
  assumes "\<forall>i. rnd i < length chars"
  shows "set (draw6 rnd pos) \<subseteq> set chars"
  using assms by (auto simp: draw6_def charAt_def)

subsection \<open>Creating and resolving\<close>

lemma shortenUrl_accepted:
  assumes "isValid (validateUrl e (formOriginalUrl fd))"
    and "isValid (validateShortcode st (or_empty (preferredShortcode fd)))"
    and "isValid (validateValidityMinutes (validityMinutes fd))"
    and "(if or_empty (preferredShortcode fd) \<noteq> [] then Some (or_empty (preferredShortcode fd))
          else generateShortcode rnd st) = Some code"
  shows "shortenUrl e rnd now uuid fd st =
     Some (Inr \<lparr>urlId = uuid, originalUrl = formOriginalUrl fd, shortCode = code,
                expiryDate = now + minutes_of (validityMinutes fd) * 60 * 1000, createdAt = now,
                clicks = [], isExpired = False\<rparr>,
           logger_call LvInfo ''UrlService.shortenUrl'' ''URL shortened successfully''
            (saveToStorage e (st\<lparr>urls := Map_set code
              \<lparr>urlId = uuid, originalUrl = formOriginalUrl fd, shortCode = code,
                expiryDate = now + minutes_of (validityMinutes fd) * 60 * 1000, createdAt = now,
                clicks = [], isExpired = False\<rparr> (urls st)\<rparr>)))"
  using assms unfolding shortenUrl_def by (simp add: Let_def)

text \<open>
  Claim C1, as amended. Let the three validations accept the form, let its validity be \<open>m\<close>
  minutes and, when it names no shortcode, let the random source draw an unused code at some
  attempt. Then \<open>shortenUrl\<close> returns a record, and \<open>getUrlByShortcode\<close> with the assigned
  \<open>shortCode\<close>, called at once (clock reading \<open>now\<close>) or at any reading \<open>t\<close> not after the
  expiry date, returns that very record. Its \<open>originalUrl\<close> is the form's, its \<open>shortCode\<close> is
  the preferred one when given and the generated one otherwise, and its \<open>expiryDate\<close> is
  \<open>createdAt\<close> plus \<open>m\<close> minutes, that is \<open>m * 60 * 1000\<close> milliseconds.
\<close>

theorem create_then_resolve:
  assumes "isValid (validateUrl e (formOriginalUrl fd))"
    and "isValid (validateShortcode st (or_empty (preferredShortcode fd)))"
    and "validityMinutes fd = Integral m"
    and "isValid (validateValidityMinutes (Integral m))"
    and "or_empty (preferredShortcode fd) \<noteq> [] \<or> (\<exists>k. \<not> Map_has (urls st) (draw6 rnd (6 * k)))"
    and "t \<le> now + m * 60 * 1000"
  shows "\<exists>r st'. shortenUrl e rnd now uuid fd st = Some (Inr r, st')
           \<and> originalUrl r = formOriginalUrl fd
           \<and> (or_empty (preferredShortcode fd) \<noteq> [] \<longrightarrow> shortCode r = or_empty (preferredShortcode fd))
           \<and> (or_empty (preferredShortcode fd) = [] \<longrightarrow> generateShortcode rnd st = Some (shortCode r))
           \<and> createdAt r = now
           \<and> expiryDate r = createdAt r + m * 60 * 1000
           \<and> getUrlByShortcode e now (shortCode r) st' = (Some r, st')
           \<and> getUrlByShortcode e t (shortCode r) st' = (Some r, st')"
proof -
  obtain code where code: "(if or_empty (preferredShortcode fd) \<noteq> [] then Some (or_empty (preferredShortcode fd))
          else generateShortcode rnd st) = Some code"
  proof (cases "or_empty (preferredShortcode fd) \<noteq> []")
    case True
    then show ?thesis using that by simp
  next
    case False
    with assms(5) obtain k where "\<not> Map_has (urls st) (draw6 rnd (0 + 6 * k))" by auto
    from generateShortcode_from_terminates[OF this] show ?thesis
      using that False by (auto simp: generateShortcode_def)
  qed
  have pos: "0 < m"
    using assms(4) by (auto simp: invalid_def split: if_splits)
  have valid3: "isValid (validateValidityMinutes (validityMinutes fd))"
    using assms(3,4) by simp
  have mins: "minutes_of (validityMinutes fd) = m"
    using assms(3) by simp
  let ?r = "\<lparr>urlId = uuid, originalUrl = formOriginalUrl fd, shortCode = code,
                expiryDate = now + m * 60 * 1000, createdAt = now,
                clicks = [], isExpired = False\<rparr>"
  let ?st' = "logger_call LvInfo ''UrlService.shortenUrl'' ''URL shortened successfully''
      (saveToStorage e (st\<lparr>urls := Map_set code ?r (urls st)\<rparr>))"
  have created: "shortenUrl e rnd now uuid fd st = Some (Inr ?r, ?st')"
    using shortenUrl_accepted[OF assms(1,2) valid3 code, of now uuid] by (simp only: mins)
  have resolve: "getUrlByShortcode e t' code ?st' = (Some ?r, ?st')"
    if "t' \<le> now + m * 60 * 1000" for t'
    using that by (simp add: getUrlByShortcode_def Map_get_set_same)
  have "getUrlByShortcode e now code ?st' = (Some ?r, ?st')"
    using pos by (intro resolve) simp
  moreover have "getUrlByShortcode e t code ?st' = (Some ?r, ?st')"
    using assms(6) by (rule resolve)
  moreover have "or_empty (preferredShortcode fd) \<noteq> [] \<longrightarrow> code = or_empty (preferredShortcode fd)"
    using code by auto
  moreover have "or_empty (preferredShortcode fd) = [] \<longrightarrow> generateShortcode rnd st = Some code"
    using code by auto
  ultimately show ?thesis using created by (intro exI[of _ ?r] exI[of _ ?st']) simp
qed

text \<open>
  The sample form, with its own shortcode and one minute, created at 1000 and resolved 59
  seconds later; and the form with no shortcode and thirty minutes, created at 1000 where
  the first draw is taken, and resolved one second before its thirty minutes are over.
\<close>

theorem create_then_resolve_witness:
  "shortenUrl sample_env zero_source 1000 ''id-1'' sample_form empty_registry
     = Some (Inr sample_url, sample_registry)
   \<and> getUrlByShortcode sample_env 60000 ''abc123'' sample_registry = (Some sample_url, sample_registry)
   \<and> expiryDate sample_url = createdAt sample_url + 1 * 60 * 1000
   \<and> (\<exists>r st'. shortenUrl sample_env retry_source 1000 ''id-3'' auto_form taken_registry
                  = Some (Inr r, st')
          \<and> originalUrl r = ''http://example.org/b'' \<and> shortCode r = ''bbbbbb''
          \<and> createdAt r = 1000 \<and> expiryDate r = 1801000
          \<and> getUrlByShortcode sample_env 1800000 ''bbbbbb'' st' = (Some r, st'))"
proof -
  have h1: "isValid (validateUrl sample_env (formOriginalUrl sample_form))"
    by code_simp
  have h2: "isValid (validateShortcode empty_registry (or_empty (preferredShortcode sample_form)))"
    by code_simp
  have h3: "validityMinutes sample_form = Integral 1"
    by code_simp
  have h4: "isValid (validateValidityMinutes (Integral 1))"
    by code_simp
  have h5: "or_empty (preferredShortcode sample_form) \<noteq> []
      \<or> (\<exists>k. \<not> Map_has (urls empty_registry) (draw6 zero_source (6 * k)))"
    by (simp add: sample_form_def or_empty_def)
  have h6: "(60000::int) \<le> 1000 + 1 * 60 * 1000"
    by simp
  from create_then_resolve[OF h1 h2 h3 h4 h5 h6, of "''id-1''"]
  obtain r st' where
    r: "shortenUrl sample_env zero_source 1000 ''id-1'' sample_form empty_registry = Some (Inr r, st')"
    and res: "getUrlByShortcode sample_env 60000 (shortCode r) st' = (Some r, st')"
    and ex: "expiryDate r = createdAt r + 1 * 60 * 1000"
    by blast
  have "shortenUrl sample_env zero_source 1000 ''id-1'' sample_form empty_registry
     = Some (Inr sample_url, sample_registry)"
    by code_simp
  with r have "r = sample_url" "st' = sample_registry" by simp_all
  with r res ex have explicit:
    "shortenUrl sample_env zero_source 1000 ''id-1'' sample_form empty_registry
       = Some (Inr sample_url, sample_registry)
     \<and> getUrlByShortcode sample_env 60000 ''abc123'' sample_registry = (Some sample_url, sample_registry)
     \<and> expiryDate sample_url = createdAt sample_url + 1 * 60 * 1000"
    by (simp add: sample_url_def)
  have g1: "isValid (validateUrl sample_env (formOriginalUrl auto_form))"
    by code_simp
  have g2: "isValid (validateShortcode taken_registry (or_empty (preferredShortcode auto_form)))"
    by code_simp
  have g3: "validityMinutes auto_form = Integral 30"
    by code_simp
  have g4: "isValid (validateValidityMinutes (Integral 30))"
    by code_simp
  have none: "or_empty (preferredShortcode auto_form) = []"
    by code_simp
  have d0: "draw6 retry_source 0 = ''aaaaaa''" by code_simp
  have d6: "draw6 retry_source 6 = ''bbbbbb''" by code_simp
  have t0: "Map_has (urls taken_registry) ''aaaaaa''" by code_simp
  have t6: "\<not> Map_has (urls taken_registry) ''bbbbbb''" by code_simp
  have "\<not> Map_has (urls taken_registry) (draw6 retry_source (6 * 1))" using d6 t6 by simp
  then have g5: "or_empty (preferredShortcode auto_form) \<noteq> []
      \<or> (\<exists>k. \<not> Map_has (urls taken_registry) (draw6 retry_source (6 * k)))"
    by blast
  have g6: "(1800000::int) \<le> 1000 + 30 * 60 * 1000"
    by simp
  have "generateShortcode_from retry_source (urls taken_registry) 6 = Some ''bbbbbb''"
    by (subst generateShortcode_from.simps) (simp add: d6 t6 Let_def)
  then have "generateShortcode_from retry_source (urls taken_registry) 0 = Some ''bbbbbb''"
    by (subst generateShortcode_from.simps) (simp add: d0 t0 Let_def)
  then have gen: "generateShortcode retry_source taken_registry = Some ''bbbbbb''"
    by (simp add: generateShortcode_def)
  from create_then_resolve[OF g1 g2 g3 g4 g5 g6, of "''id-3''"]
  obtain r2 st2 where
    c: "shortenUrl sample_env retry_source 1000 ''id-3'' auto_form taken_registry = Some (Inr r2, st2)"
    and o: "originalUrl r2 = formOriginalUrl auto_form"
    and sc: "or_empty (preferredShortcode auto_form) = []
        \<longrightarrow> generateShortcode retry_source taken_registry = Some (shortCode r2)"
    and cr: "createdAt r2 = 1000"
    and ex2: "expiryDate r2 = createdAt r2 + 30 * 60 * 1000"
    and res2: "getUrlByShortcode sample_env 1800000 (shortCode r2) st2 = (Some r2, st2)"
    by blast
  from sc none gen have code2: "shortCode r2 = ''bbbbbb''" by simp
  have o2: "originalUrl r2 = ''http://example.org/b''" using o by (simp add: auto_form_def)
  have e2: "expiryDate r2 = 1801000" using ex2 cr by simp
  have generated: "\<exists>r st'. shortenUrl sample_env retry_source 1000 ''id-3'' auto_form taken_registry
                  = Some (Inr r, st')
          \<and> originalUrl r = ''http://example.org/b'' \<and> shortCode r = ''bbbbbb''
          \<and> createdAt r = 1000 \<and> expiryDate r = 1801000
          \<and> getUrlByShortcode sample_env 1800000 ''bbbbbb'' st' = (Some r, st')"
    using c o2 code2 cr e2 res2 by auto
  from explicit generated show ?thesis by (intro conjI) (erule conjunct1 conjunct2 | assumption | blast)+
qed

text \<open>
  The claim as first stated fails: the form with no shortcode passes the three validations,
  an unused code exists, and yet with \<open>aaaaaa\<close> taken and a source that draws index 0 for
  ever \<open>shortenUrl\<close> never returns, so there is no record to resolve.
\<close>

theorem create_then_resolve_counterexample:
  "isValid (validateUrl sample_env (formOriginalUrl auto_form))
   \<and> isValid (validateShortcode taken_registry (or_empty (preferredShortcode auto_form)))
   \<and> isValid (validateValidityMinutes (validityMinutes auto_form))
   \<and> shortenUrl sample_env zero_source 1000 ''id-3'' auto_form taken_registry = None"
proof -
  have g1: "isValid (validateUrl sample_env (formOriginalUrl auto_form))"
    by code_simp
  have g2: "isValid (validateShortcode taken_registry (or_empty (preferredShortcode auto_form)))"
    by code_simp
  have g3: "isValid (validateValidityMinutes (validityMinutes auto_form))"
    by code_simp
  have none: "or_empty (preferredShortcode auto_form) = []"
    by code_simp
  have "draw6 zero_source p = ''aaaaaa''" for p
    by (simp add: draw6_def zero_source_def charAt_def chars_def upt_rec[of _ 6])
  then have "\<forall>p. Map_has (urls taken_registry) (draw6 zero_source p)"
    by (simp add: taken_registry_def Map_has_def)
  then have "generateShortcode zero_source taken_registry = None"
    unfolding generateShortcode_def by (rule generateShortcode_from_all_taken)
  then have "shortenUrl sample_env zero_source 1000 ''id-3'' auto_form taken_registry = None"
    using g1 g2 g3 none by (simp add: shortenUrl_def Let_def)
  with g1 g2 g3 show ?thesis by simp
qed

text \<open>
  Claim C2. \<open>shortenUrl\<close> validates the URL, then the shortcode, then the validity. It throws
  the error of the first validation that fails, and whenever it throws the state it leaves is
  the state it found: the map, the stored item, the count of writes and the list of logger
  calls are unchanged. It returns a record only when all three validations accept.
\<close>

theorem shortenUrl_fails_fast:
  "(\<not> isValid (validateUrl e (formOriginalUrl fd)) \<longrightarrow>
      shortenUrl e rnd now uuid fd st = Some (Inl (thrown (validateUrl e (formOriginalUrl fd))), st))
   \<and> (isValid (validateUrl e (formOriginalUrl fd))
        \<and> \<not> isValid (validateShortcode st (or_empty (preferredShortcode fd))) \<longrightarrow>
      shortenUrl e rnd now uuid fd st
        = Some (Inl (thrown (validateShortcode st (or_empty (preferredShortcode fd)))), st))
   \<and> (isValid (validateUrl e (formOriginalUrl fd))
        \<and> isValid (validateShortcode st (or_empty (preferredShortcode fd)))
        \<and> \<not> isValid (validateValidityMinutes (validityMinutes fd)) \<longrightarrow>
      shortenUrl e rnd now uuid fd st
        = Some (Inl (thrown (validateValidityMinutes (validityMinutes fd))), st))
   \<and> (\<forall>err st'. shortenUrl e rnd now uuid fd st = Some (Inl err, st') \<longrightarrow>
        st' = st
        \<and> (\<not> isValid (validateUrl e (formOriginalUrl fd))
           \<or> \<not> isValid (validateShortcode st (or_empty (preferredShortcode fd)))
           \<or> \<not> isValid (validateValidityMinutes (validityMinutes fd))))
   \<and> (\<forall>r st'. shortenUrl e rnd now uuid fd st = Some (Inr r, st') \<longrightarrow>
        isValid (validateUrl e (formOriginalUrl fd))
        \<and> isValid (validateShortcode st (or_empty (preferredShortcode fd)))
        \<and> isValid (validateValidityMinutes (validityMinutes fd)))"
  unfolding shortenUrl_def by (auto simp: Let_def split: option.splits)

text \<open>Three forms that fail at the first, the second and the third validation.\<close>

theorem shortenUrl_fails_fast_witness:
  "shortenUrl sample_env zero_source 1000 ''id-2''
      \<lparr>formOriginalUrl = ''ftp://example.com/a'', validityMinutes = Integral 0,
        preferredShortcode = Some ''ab''\<rparr> sample_registry
     = Some (Inl (Error ''URL must use HTTP or HTTPS protocol''), sample_registry)
   \<and> shortenUrl sample_env zero_source 1000 ''id-2''
      \<lparr>formOriginalUrl = ''https://example.com/b'', validityMinutes = Integral 0,
        preferredShortcode = Some ''ab''\<rparr> sample_registry
     = Some (Inl (Error ''Shortcode must be between 3 and 20 characters''), sample_registry)
   \<and> shortenUrl sample_env zero_source 1000 ''id-2''
      \<lparr>formOriginalUrl = ''https://example.com/b'', validityMinutes = Integral 0,
        preferredShortcode = Some ''abc''\<rparr> sample_registry
     = Some (Inl (Error ''Validity period must be a positive integer''), sample_registry)"
proof -
  let ?fd1 = "\<lparr>formOriginalUrl = ''ftp://example.com/a'', validityMinutes = Integral 0,
        preferredShortcode = Some ''ab''\<rparr>"
  let ?fd2 = "\<lparr>formOriginalUrl = ''https://example.com/b'', validityMinutes = Integral 0,
        preferredShortcode = Some ''ab''\<rparr>"
  let ?fd3 = "\<lparr>formOriginalUrl = ''https://example.com/b'', validityMinutes = Integral 0,
        preferredShortcode = Some ''abc''\<rparr>"
  have u1: "validateUrl sample_env (formOriginalUrl ?fd1) = invalid ''URL must use HTTP or HTTPS protocol''"
    by code_simp
  have u2: "validateUrl sample_env (formOriginalUrl ?fd2) = valid"
    by code_simp
  have u3: "validateUrl sample_env (formOriginalUrl ?fd3) = valid"
    by code_simp
  have s2: "validateShortcode sample_registry (or_empty (preferredShortcode ?fd2))
      = invalid ''Shortcode must be between 3 and 20 characters''"
    by code_simp
  have s3: "validateShortcode sample_registry (or_empty (preferredShortcode ?fd3)) = valid"
    by code_simp
  have v3: "validateValidityMinutes (validityMinutes ?fd3) = invalid ''Validity period must be a positive integer''"
    by code_simp
  have "shortenUrl sample_env zero_source 1000 ''id-2'' ?fd1 sample_registry
     = Some (Inl (Error ''URL must use HTTP or HTTPS protocol''), sample_registry)"
    using shortenUrl_fails_fast[of sample_env ?fd1 zero_source 1000 "''id-2''" sample_registry]
    unfolding u1 by (simp add: invalid_def thrown_def)
  moreover have "shortenUrl sample_env zero_source 1000 ''id-2'' ?fd2 sample_registry
     = Some (Inl (Error ''Shortcode must be between 3 and 20 characters''), sample_registry)"
    using shortenUrl_fails_fast[of sample_env ?fd2 zero_source 1000 "''id-2''" sample_registry]
    unfolding u2 s2 by (simp add: invalid_def valid_def thrown_def)
  moreover have "shortenUrl sample_env zero_source 1000 ''id-2'' ?fd3 sample_registry
     = Some (Inl (Error ''Validity period must be a positive integer''), sample_registry)"
    using shortenUrl_fails_fast[of sample_env ?fd3 zero_source 1000 "''id-2''" sample_registry]
    unfolding u3 s3 v3 by (simp add: invalid_def valid_def thrown_def)
  ultimately show ?thesis by simp
qed

subsection \<open>Shortcode validation\<close>

lemma validateShortcode_valid_iff:
  "isValid (validateShortcode st s) \<longleftrightarrow>
     s = [] \<or> (list_all is_alnum s \<and> 3 \<le> length s \<and> length s \<le> 20 \<and> \<not> Map_has (urls st) s)"
  by (auto simp: validateShortcode_def valid_def invalid_def alnum_test_def)

text \<open>
  Claim C3. \<open>validateShortcode\<close> accepts the empty candidate. It rejects a candidate with a
  character outside \<open>[a-zA-Z0-9]\<close>, and an alphanumeric one shorter than 3 or longer than 20.
  A well-formed candidate that is the \<open>shortCode\<close> of a stored record \<open>u\<close> is rejected as taken,
  whatever \<open>isExpired u\<close> and \<open>expiryDate u\<close> are; one that no stored record has is accepted.
  So after \<open>shortenUrl\<close> has returned a record for the preferred shortcode \<open>s\<close>, a second call
  with the same preferred shortcode, and a URL that passes \<open>validateUrl\<close>, throws
  \<open>This shortcode is already taken\<close> and leaves the state as it was.
\<close>

theorem validateShortcode_rules:
  "validateShortcode st [] = valid
   \<and> (s \<noteq> [] \<and> \<not> list_all is_alnum s \<longrightarrow>
        validateShortcode st s = invalid ''Shortcode must contain only alphanumeric characters'')
   \<and> (s \<noteq> [] \<and> list_all is_alnum s \<and> (length s < 3 \<or> 20 < length s) \<longrightarrow>
        validateShortcode st s = invalid ''Shortcode must be between 3 and 20 characters'')
   \<and> (keyed st \<and> list_all is_alnum s \<and> 3 \<le> length s \<and> length s \<le> 20
        \<and> u \<in> set (Map_values (urls st)) \<and> shortCode u = s \<longrightarrow>
        validateShortcode st s = invalid ''This shortcode is already taken'')
   \<and> (keyed st \<and> list_all is_alnum s \<and> 3 \<le> length s \<and> length s \<le> 20
        \<and> (\<forall>v \<in> set (Map_values (urls st)). shortCode v \<noteq> s) \<longrightarrow>
        validateShortcode st s = valid)
   \<and> (s \<noteq> [] \<and> preferredShortcode fd = Some s \<and> preferredShortcode fd2 = Some s
        \<and> shortenUrl e rnd now uuid fd st = Some (Inr r, st')
        \<and> isValid (validateUrl e (formOriginalUrl fd2)) \<longrightarrow>
        shortenUrl e rnd2 now2 uuid2 fd2 st'
          = Some (Inl (Error ''This shortcode is already taken''), st'))"
proof (intro conjI impI)
  show "validateShortcode st [] = valid" by (simp add: validateShortcode_def)
next
  assume "s \<noteq> [] \<and> \<not> list_all is_alnum s"
  then show "validateShortcode st s = invalid ''Shortcode must contain only alphanumeric characters''"
    by (simp add: validateShortcode_def alnum_test_def)
next
  assume "s \<noteq> [] \<and> list_all is_alnum s \<and> (length s < 3 \<or> 20 < length s)"
  then show "validateShortcode st s = invalid ''Shortcode must be between 3 and 20 characters''"
    by (auto simp: validateShortcode_def alnum_test_def)
next
  assume a: "keyed st \<and> list_all is_alnum s \<and> 3 \<le> length s \<and> length s \<le> 20
        \<and> u \<in> set (Map_values (urls st)) \<and> shortCode u = s"
  then have "Map_has (urls st) s" using keyed_has[of st s] by blast
  with a show "validateShortcode st s = invalid ''This shortcode is already taken''"
    by (auto simp: validateShortcode_def alnum_test_def)
next
  assume a: "keyed st \<and> list_all is_alnum s \<and> 3 \<le> length s \<and> length s \<le> 20
        \<and> (\<forall>v \<in> set (Map_values (urls st)). shortCode v \<noteq> s)"
  then have "\<not> Map_has (urls st) s" using keyed_has[of st s] by blast
  with a show "validateShortcode st s = valid"
    by (auto simp: validateShortcode_def alnum_test_def)
next
  assume a: "s \<noteq> [] \<and> preferredShortcode fd = Some s \<and> preferredShortcode fd2 = Some s
        \<and> shortenUrl e rnd now uuid fd st = Some (Inr r, st')
        \<and> isValid (validateUrl e (formOriginalUrl fd2))"
  then have pref: "or_empty (preferredShortcode fd) = s" "or_empty (preferredShortcode fd2) = s"
    by (simp_all add: or_empty_def)
  from a have created: "shortenUrl e rnd now uuid fd st = Some (Inr r, st')" by simp
  have ok: "isValid (validateShortcode st s)"
    using created pref(1) unfolding shortenUrl_def
    by (auto simp: Let_def split: if_splits option.splits)
  have st': "urls st' = Map_set s r (urls st)"
    using created pref(1) a unfolding shortenUrl_def
    by (auto simp: Let_def split: if_splits option.splits)
  have wf: "list_all is_alnum s \<and> 3 \<le> length s \<and> length s \<le> 20"
    using ok a by (simp add: validateShortcode_valid_iff)
  have "Map_has (urls st') s" by (simp add: st' Map_has_set)
  with wf a have "validateShortcode st' s = invalid ''This shortcode is already taken''"
    by (auto simp: validateShortcode_def alnum_test_def)
  with a pref show "shortenUrl e rnd2 now2 uuid2 fd2 st'
          = Some (Inl (Error ''This shortcode is already taken''), st')"
    unfolding shortenUrl_def by (simp add: Let_def invalid_def thrown_def)
qed

text \<open>The rules on sample candidates, and the sample form submitted twice.\<close>

theorem validateShortcode_rules_witness:
  "validateShortcode sample_registry [] = valid
   \<and> validateShortcode sample_registry ''has space''
       = invalid ''Shortcode must contain only alphanumeric characters''
   \<and> validateShortcode sample_registry ''ab'' = invalid ''Shortcode must be between 3 and 20 characters''
   \<and> validateShortcode sample_registry ''abc123'' = invalid ''This shortcode is already taken''
   \<and> validateShortcode expired_registry ''abc123'' = invalid ''This shortcode is already taken''
   \<and> validateShortcode sample_registry ''xyz789'' = valid
   \<and> shortenUrl sample_env zero_source 1000 ''id-1'' sample_form empty_registry
       = Some (Inr sample_url, sample_registry)
   \<and> shortenUrl sample_env zero_source 2000 ''id-2'' sample_form sample_registry
       = Some (Inl (Error ''This shortcode is already taken''), sample_registry)"
proof -
  have k1: "keyed sample_registry" by code_simp
  have k2: "keyed expired_registry" by code_simp
  have a1: "list_all is_alnum ''abc123''" by code_simp
  have a2: "list_all is_alnum ''xyz789''" by code_simp
  have a3: "list_all is_alnum ''ab''" by code_simp
  have a4: "\<not> list_all is_alnum ''has space''" by code_simp
  have m1: "sample_url \<in> set (Map_values (urls sample_registry))" by code_simp
  have m2: "expired_url \<in> set (Map_values (urls expired_registry))" by code_simp
  have c1: "shortCode sample_url = ''abc123''" by code_simp
  have c2: "shortCode expired_url = ''abc123''" by code_simp
  have n1: "\<forall>v \<in> set (Map_values (urls sample_registry)). shortCode v \<noteq> ''xyz789''" by code_simp
  have created: "shortenUrl sample_env zero_source 1000 ''id-1'' sample_form empty_registry
       = Some (Inr sample_url, sample_registry)" by code_simp
  have u: "isValid (validateUrl sample_env (formOriginalUrl sample_form))" by code_simp
  have p: "preferredShortcode sample_form = Some ''abc123''" by code_simp
  note r1 = validateShortcode_rules[of sample_registry "''has space''"]
  note r2 = validateShortcode_rules[of sample_registry "''ab''"]
  note r3 = validateShortcode_rules[of sample_registry "''abc123''" sample_url sample_form sample_form
      sample_env zero_source 1000 "''id-1''" sample_url]
  note r4 = validateShortcode_rules[of expired_registry "''abc123''" expired_url]
  note r5 = validateShortcode_rules[of sample_registry "''xyz789''"]
  note r6 = validateShortcode_rules[of empty_registry "''abc123''" sample_url sample_form sample_form
      sample_env zero_source 1000 "''id-1''" sample_url sample_registry zero_source 2000 "''id-2''"]
  have "validateShortcode sample_registry [] = valid" using r1 by blast
  moreover have "validateShortcode sample_registry ''has space''
       = invalid ''Shortcode must contain only alphanumeric characters''"
    using r1 a4 by simp
  moreover have "validateShortcode sample_registry ''ab'' = invalid ''Shortcode must be between 3 and 20 characters''"
    using r2 a3 by simp
  moreover have "validateShortcode sample_registry ''abc123'' = invalid ''This shortcode is already taken''"
    using r3 k1 a1 m1 c1 by simp
  moreover have "validateShortcode expired_registry ''abc123'' = invalid ''This shortcode is already taken''"
    using r4 k2 a1 m2 c2 by simp
  moreover have "validateShortcode sample_registry ''xyz789'' = valid"
    using r5 k1 a2 n1 by simp
  moreover have "shortenUrl sample_env zero_source 2000 ''id-2'' sample_form sample_registry
       = Some (Inl (Error ''This shortcode is already taken''), sample_registry)"
    using r6 created u p by simp
  ultimately show ?thesis using created by simp
qed

subsection \<open>Listing\<close>

lemma set_sort_newest_first [simp]: "set (sort_newest_first xs) = set xs"
  by (simp add: sort_newest_first_def)

lemma mset_sort_newest_first [simp]: "mset (sort_newest_first xs) = mset xs"
  by (simp add: sort_newest_first_def)

lemma sorted_sort_newest_first:
  "sorted_wrt (\<lambda>a b. createdAt b \<le> createdAt a) (sort_newest_first xs)"
proof -
  have "sorted (map (\<lambda>u. - createdAt u) (sort_newest_first xs))"
    unfolding sort_newest_first_def by (rule sorted_sort_key)
  then show ?thesis by (simp add: sorted_map)
qed

lemma insort_key_map_same_key:
  assumes "\<And>y. f (g y) = f y"
  shows "insort_key f (g x) (map g xs) = map g (insort_key f x xs)"
  by (induction xs) (simp_all add: assms)

lemma sort_key_map_same_key:
  assumes "\<And>y. f (g y) = f y"
  shows "sort_key f (map g xs) = map g (sort_key f xs)"
  by (induction xs) (simp_all add: insort_key_map_same_key[of f g] assms)

lemma sort_newest_first_refresh:
  "sort_newest_first (map (\<lambda>u. u\<lparr>isExpired := p u\<rparr>) xs)
     = map (\<lambda>u. u\<lparr>isExpired := p u\<rparr>) (sort_newest_first xs)"
  unfolding sort_newest_first_def by (rule sort_key_map_same_key) simp

lemma fst_forEach_refresh:
  "fst (forEach_refresh now m) = map (\<lambda>(k, u). (k, u\<lparr>isExpired := expiryDate u < now\<rparr>)) m"
  by (induction m) (auto simp: Let_def case_prod_unfold)

lemma getAllUrls_urls:
  "urls (snd (getAllUrls e now st))
     = map (\<lambda>(k, u). (k, u\<lparr>isExpired := expiryDate u < now\<rparr>)) (urls st)"
  by (simp add: getAllUrls_def Let_def case_prod_unfold fst_forEach_refresh)

lemma getAllUrls_result:
  "fst (getAllUrls e now st)
     = sort_newest_first (map (\<lambda>u. u\<lparr>isExpired := expiryDate u < now\<rparr>) (Map_values (urls st)))"
  by (simp add: getAllUrls_def Let_def Map_values_def comp_def case_prod_unfold fst_forEach_refresh)

text \<open>
  Claim C6. \<open>getAllUrls\<close> returns every stored record, each with \<open>isExpired\<close> recomputed
  against the clock, sorted by \<open>createdAt\<close> descending. A second call, with nothing in between,
  returns the same records in the same order: the second list is the first with the flags
  recomputed, the shortcodes agree position by position, and when no expiry date lies
  between the two clock readings the two lists and the two maps are equal.
\<close>

theorem getAllUrls_newest_first:
  "mset (fst (getAllUrls e now st))
     = mset (map (\<lambda>u. u\<lparr>isExpired := expiryDate u < now\<rparr>) (Map_values (urls st)))
   \<and> sorted_wrt (\<lambda>a b. createdAt b \<le> createdAt a) (fst (getAllUrls e now st))
   \<and> fst (getAllUrls e now2 (snd (getAllUrls e now st)))
       = map (\<lambda>u. u\<lparr>isExpired := expiryDate u < now2\<rparr>) (fst (getAllUrls e now st))
   \<and> map shortCode (fst (getAllUrls e now2 (snd (getAllUrls e now st))))
       = map shortCode (fst (getAllUrls e now st))
   \<and> ((\<forall>u \<in> set (Map_values (urls st)). (expiryDate u < now2) = (expiryDate u < now)) \<longrightarrow>
        fst (getAllUrls e now2 (snd (getAllUrls e now st))) = fst (getAllUrls e now st)
      \<and> urls (snd (getAllUrls e now2 (snd (getAllUrls e now st)))) = urls (snd (getAllUrls e now st)))"
proof -
  let ?f = "\<lambda>t (u::ShortenedUrl). u\<lparr>isExpired := expiryDate u < t\<rparr>"
  have vals: "Map_values (urls (snd (getAllUrls e now st))) = map (?f now) (Map_values (urls st))"
    by (simp add: getAllUrls_urls Map_values_def comp_def case_prod_unfold)
  have again: "fst (getAllUrls e now2 (snd (getAllUrls e now st)))
       = map (?f now2) (fst (getAllUrls e now st))"
    by (simp add: getAllUrls_result[of e now2] vals sort_newest_first_refresh
          getAllUrls_result[of e now st] comp_def)
  have same: "fst (getAllUrls e now2 (snd (getAllUrls e now st))) = fst (getAllUrls e now st)
      \<and> urls (snd (getAllUrls e now2 (snd (getAllUrls e now st)))) = urls (snd (getAllUrls e now st))"
    if h: "\<forall>u \<in> set (Map_values (urls st)). (expiryDate u < now2) = (expiryDate u < now)"
  proof
    have eq: "map (?f now2) (map (?f now) (Map_values (urls st))) = map (?f now) (Map_values (urls st))"
      by (rule map_idI) (use h in auto)
    have "map (?f now2) (sort_newest_first (map (?f now) (Map_values (urls st))))
        = sort_newest_first (map (?f now2) (map (?f now) (Map_values (urls st))))"
      by (rule sort_newest_first_refresh[symmetric])
    also have "\<dots> = sort_newest_first (map (?f now) (Map_values (urls st)))"
      by (simp only: eq)
    finally have "map (?f now2) (sort_newest_first (map (?f now) (Map_values (urls st))))
        = sort_newest_first (map (?f now) (Map_values (urls st)))" .
    then show "fst (getAllUrls e now2 (snd (getAllUrls e now st))) = fst (getAllUrls e now st)"
      by (simp add: again getAllUrls_result[of e now st])
    have "map (\<lambda>(k, u). (k, ?f now2 u)) (map (\<lambda>(k, u). (k, ?f now u)) (urls st))
        = map (\<lambda>(k, u). (k, ?f now u)) (urls st)"
      using h by (auto simp: Map_values_def)
    then show "urls (snd (getAllUrls e now2 (snd (getAllUrls e now st)))) = urls (snd (getAllUrls e now st))"
      by (simp add: getAllUrls_urls)
  qed
  show ?thesis
    using again same
    by (simp add: getAllUrls_result[of e now st] sorted_sort_newest_first comp_def)
qed

text \<open>Two records, listed newest first, three times.\<close>

theorem getAllUrls_newest_first_witness:
  "fst (getAllUrls sample_env 62000 two_registry) = [second_url, expired_url]
   \<and> fst (getAllUrls sample_env 62000 (snd (getAllUrls sample_env 62000 two_registry)))
       = [second_url, expired_url]
   \<and> fst (getAllUrls sample_env 63000 (snd (getAllUrls sample_env 62000 two_registry)))
       = [second_url, expired_url]"
proof -
  have l: "fst (getAllUrls sample_env 62000 two_registry) = [second_url, expired_url]"
    by code_simp
  have same: "\<forall>u \<in> set (Map_values (urls two_registry)). (expiryDate u < 63000) = (expiryDate u < 62000)"
    by code_simp
  have same0: "\<forall>u \<in> set (Map_values (urls two_registry)). (expiryDate u < 62000) = (expiryDate u < 62000)"
    by simp
  have "fst (getAllUrls sample_env 63000 (snd (getAllUrls sample_env 62000 two_registry)))
      = fst (getAllUrls sample_env 62000 two_registry)"
    using getAllUrls_newest_first[of sample_env 62000 two_registry 63000] same by blast
  moreover have "fst (getAllUrls sample_env 62000 (snd (getAllUrls sample_env 62000 two_registry)))
      = fst (getAllUrls sample_env 62000 two_registry)"
    using getAllUrls_newest_first[of sample_env 62000 two_registry 62000] same0 by blast
  ultimately show ?thesis using l by simp
qed

subsection \<open>Well-formed registries\<close>

text \<open>Every operation of the service keeps each record under its own \<open>shortCode\<close>, and each key once.\<close>

lemma keys_Map_set: "map fst (Map_set k v m) = (if Map_has m k then map fst m else map fst m @ [k])"
  by (induction m) (auto simp: Map_has_def)

lemma list_all_Map_set: "list_all P m \<Longrightarrow> P (k, v) \<Longrightarrow> list_all P (Map_set k v m)"
  by (induction m) auto

lemma keyed_Map_set:
  assumes "keyed st" and "shortCode v = k"
  shows "keyed (st\<lparr>urls := Map_set k v (urls st)\<rparr>)"
  using assms by (auto simp: keyed_def keys_Map_set Map_has_def intro: list_all_Map_set)

lemma keyed_urls: "urls st' = urls st \<Longrightarrow> keyed st' = keyed st"
  by (simp add: keyed_def)

lemma keyed_saveToStorage [simp]: "keyed (saveToStorage e st) = keyed st"
  by (rule keyed_urls) simp

lemma keyed_logger_call [simp]: "keyed (logger_call lvl stk msg st) = keyed st"
  by (rule keyed_urls) simp

lemma Map_get_keyed: "keyed st \<Longrightarrow> Map_get (urls st) k = Some u \<Longrightarrow> shortCode u = k"
  unfolding keyed_def Map_get_def list_all_iff by (auto dest!: map_of_SomeD)

lemma keyed_preserved:
  assumes "keyed st"
  shows "shortenUrl e rnd now uuid fd st = Some (res, st') \<Longrightarrow> keyed st'"
    and "keyed (snd (getUrlByShortcode e now code st))"
    and "keyed (snd (recordClick e now clickTime uuid code src st))"
    and "keyed (snd (getAllUrls e now st))"
    and "keyed (snd (deleteUrl e code st))"
    and "keyed (clearAllUrls e st)"
proof -
  show "keyed st'" if "shortenUrl e rnd now uuid fd st = Some (res, st')"
    using that assms unfolding shortenUrl_def
    by (auto simp: Let_def keyed_Map_set split: if_splits option.splits)
  show g: "keyed (snd (getUrlByShortcode e now code st))" for now code
    using assms
    by (auto simp: getUrlByShortcode_def keyed_Map_set Map_get_keyed split: option.splits)
  show "keyed (snd (recordClick e now clickTime uuid code src st))"
  proof (cases "getUrlByShortcode e now code st")
    case (Pair found st1)
    have k1: "keyed st1" using g[of now code] Pair by simp
    show ?thesis
    proof (cases found)
      case None
      with Pair k1 show ?thesis by (simp add: recordClick_def)
    next
      case (Some u)
      with Pair have "Map_get (urls st) code = Some u" "st1 = st"
        by (auto simp: getUrlByShortcode_def split: option.splits if_splits)
      with assms have "shortCode u = code" by (simp add: Map_get_keyed)
      with Pair Some k1 show ?thesis by (simp add: recordClick_def Let_def keyed_Map_set)
    qed
  qed
  have "urls (snd (getAllUrls e now st))
      = map (\<lambda>(k, u). (k, u\<lparr>isExpired := expiryDate u < now\<rparr>)) (urls st)"
    by (rule getAllUrls_urls)
  then show "keyed (snd (getAllUrls e now st))"
    using assms by (auto simp: keyed_def comp_def case_prod_unfold list_all_iff)
  show "keyed (snd (deleteUrl e code st))"
    using assms
    by (auto simp: deleteUrl_def Let_def keyed_def Map_delete_def distinct_map_filter list_all_iff)
  show "keyed (clearAllUrls e st)" by (simp add: clearAllUrls_def keyed_def)
qed

subsection \<open>Expiry\<close>

lemma getUrlByShortcode_absent:
  "Map_get (urls st) code = None \<Longrightarrow> getUrlByShortcode e now code st = (None, st)"
  by (simp add: getUrlByShortcode_def)

lemma getUrlByShortcode_live:
  "Map_get (urls st) code = Some u \<Longrightarrow> now \<le> expiryDate u \<Longrightarrow>
   getUrlByShortcode e now code st = (Some u, st)"
  by (simp add: getUrlByShortcode_def)

lemma getUrlByShortcode_expired:
  "Map_get (urls st) code = Some u \<Longrightarrow> expiryDate u < now \<Longrightarrow>
   getUrlByShortcode e now code st
     = (None, logger_call LvWarn ''UrlService.getUrlByShortcode'' ''Attempted to access expired URL''
         (saveToStorage e (st\<lparr>urls := Map_set code (u\<lparr>isExpired := True\<rparr>) (urls st)\<rparr>)))"
  by (simp add: getUrlByShortcode_def)

text \<open>
  Claim C4. For a stored \<open>code\<close> with record \<open>u\<close>: when the clock is not after \<open>expiryDate u\<close>,
  \<open>getUrlByShortcode\<close> returns \<open>u\<close> and changes nothing. When the clock is after it, the call
  returns \<open>null\<close>, the map holds \<open>u\<close> with \<open>isExpired\<close> set under the same key, no other entry
  and no key changes, \<open>setItem\<close> is called in a browser and, when the store accepts the write,
  the stored item is the new array of records; and \<open>getAllUrls\<close> still lists the record at any
  later reading.
\<close>

theorem getUrlByShortcode_expiry:
  assumes "Map_get (urls st) code = Some u"
  shows "(now \<le> expiryDate u \<longrightarrow> getUrlByShortcode e now code st = (Some u, st))
    \<and> (expiryDate u < now \<longrightarrow>
         fst (getUrlByShortcode e now code st) = None
       \<and> urls (snd (getUrlByShortcode e now code st))
           = Map_set code (u\<lparr>isExpired := True\<rparr>) (urls st)
       \<and> Map_get (urls (snd (getUrlByShortcode e now code st))) code = Some (u\<lparr>isExpired := True\<rparr>)
       \<and> map fst (urls (snd (getUrlByShortcode e now code st))) = map fst (urls st)
       \<and> (\<forall>k. k \<noteq> code \<longrightarrow>
            Map_get (urls (snd (getUrlByShortcode e now code st))) k = Map_get (urls st) k)
       \<and> (has_window e \<longrightarrow>
            setItem_calls (snd (getUrlByShortcode e now code st)) = Suc (setItem_calls st))
       \<and> (has_window e \<and> setItem_ok e (Map_values (urls (snd (getUrlByShortcode e now code st)))) \<longrightarrow>
            local_storage (snd (getUrlByShortcode e now code st))
              = Some (Map_values (urls (snd (getUrlByShortcode e now code st)))))
       \<and> (\<forall>t. u\<lparr>isExpired := expiryDate u < t\<rparr>
              \<in> set (fst (getAllUrls e t (snd (getUrlByShortcode e now code st))))))"
proof (intro conjI impI)
  assume "now \<le> expiryDate u"
  with assms show "getUrlByShortcode e now code st = (Some u, st)"
    by (simp add: getUrlByShortcode_def)
next
  assume late: "expiryDate u < now"
  let ?st' = "logger_call LvWarn ''UrlService.getUrlByShortcode'' ''Attempted to access expired URL''
      (saveToStorage e (st\<lparr>urls := Map_set code (u\<lparr>isExpired := True\<rparr>) (urls st)\<rparr>))"
  have res: "getUrlByShortcode e now code st = (None, ?st')"
    using assms late by (simp add: getUrlByShortcode_def)
  have has: "Map_has (urls st) code" using assms by (simp add: Map_has_get)
  show "fst (getUrlByShortcode e now code st) = None" by (simp add: res)
  show "urls (snd (getUrlByShortcode e now code st)) = Map_set code (u\<lparr>isExpired := True\<rparr>) (urls st)"
    by (simp add: res)
  show stored: "Map_get (urls (snd (getUrlByShortcode e now code st))) code = Some (u\<lparr>isExpired := True\<rparr>)"
    by (simp add: res Map_get_set_same)
  show "map fst (urls (snd (getUrlByShortcode e now code st))) = map fst (urls st)"
    by (simp add: res keys_Map_set_present[OF has])
  show "\<forall>k. k \<noteq> code \<longrightarrow>
      Map_get (urls (snd (getUrlByShortcode e now code st))) k = Map_get (urls st) k"
    by (simp add: res Map_get_set_other)
  show "setItem_calls (snd (getUrlByShortcode e now code st)) = Suc (setItem_calls st)"
    if "has_window e"
    using that by (simp add: res saveToStorage_counts)
  show "local_storage (snd (getUrlByShortcode e now code st))
       = Some (Map_values (urls (snd (getUrlByShortcode e now code st))))"
    if "has_window e \<and> setItem_ok e (Map_values (urls (snd (getUrlByShortcode e now code st))))"
    using that by (simp add: res saveToStorage_persists)
  show "\<forall>t. u\<lparr>isExpired := expiryDate u < t\<rparr>
       \<in> set (fst (getAllUrls e t (snd (getUrlByShortcode e now code st))))"
  proof
    fix t
    have "u\<lparr>isExpired := True\<rparr> \<in> set (Map_values (urls (snd (getUrlByShortcode e now code st))))"
      by (rule Map_get_values[OF stored])
    then have "(\<lambda>v. v\<lparr>isExpired := expiryDate v < t\<rparr>) (u\<lparr>isExpired := True\<rparr>)
       \<in> set (fst (getAllUrls e t (snd (getUrlByShortcode e now code st))))"
      unfolding getAllUrls_result set_sort_newest_first set_map by (rule imageI)
    then show "u\<lparr>isExpired := expiryDate u < t\<rparr>
       \<in> set (fst (getAllUrls e t (snd (getUrlByShortcode e now code st))))"
      by simp
  qed
qed

text \<open>
  A record valid for one minute, made at 1000: found 59 seconds later, not found 61 seconds
  later, and then listed with its flag set.
\<close>

theorem getUrlByShortcode_expiry_witness:
  "getUrlByShortcode sample_env 60000 ''abc123'' sample_registry = (Some sample_url, sample_registry)
   \<and> getUrlByShortcode sample_env 62000 ''abc123'' sample_registry = (None, expired_registry)
   \<and> fst (getAllUrls sample_env 62000 expired_registry) = [expired_url]"
proof -
  have g: "Map_get (urls sample_registry) ''abc123'' = Some sample_url" by code_simp
  have t1: "60000 \<le> expiryDate sample_url" by code_simp
  have t2: "expiryDate sample_url < 62000" by code_simp
  have first: "getUrlByShortcode sample_env 60000 ''abc123'' sample_registry
      = (Some sample_url, sample_registry)"
    using getUrlByShortcode_expiry[OF g, of 60000 sample_env] t1 by simp
  have second: "getUrlByShortcode sample_env 62000 ''abc123'' sample_registry = (None, expired_registry)"
    by code_simp
  have "sample_url\<lparr>isExpired := expiryDate sample_url < 62000\<rparr>
      \<in> set (fst (getAllUrls sample_env 62000 (snd (getUrlByShortcode sample_env 62000 ''abc123'' sample_registry))))"
    using getUrlByShortcode_expiry[OF g, of 62000 sample_env] t2 by blast
  moreover have "fst (getAllUrls sample_env 62000 expired_registry) = [expired_url]"
    by code_simp
  ultimately show ?thesis using first second by simp
qed

subsection \<open>Clicks\<close>

lemma recordClick_live:
  assumes "Map_get (urls st) code = Some u" and "call_now c \<le> expiryDate u"
  shows "recordClick e (call_now c) (call_clickTime c) (call_uuid c) code (call_source c) st
     = (True, logger_call LvInfo ''UrlService.recordClick'' ''Click recorded''
          (saveToStorage e
            (st\<lparr>urls := Map_set code (u\<lparr>clicks := clicks u @ [click_of e c]\<rparr>) (urls st)\<rparr>)))"
  by (simp add: recordClick_def getUrlByShortcode_live[OF assms] click_of_def)

lemma clicks_Map_set_flag:
  "Map_get m code = Some u \<Longrightarrow>
   map (\<lambda>p. clicks (snd p)) (Map_set code (u\<lparr>isExpired := b\<rparr>) m) = map (\<lambda>p. clicks (snd p)) m"
  by (induction m) (auto simp: Map_get_def split: if_splits)

lemma recordClicks_live:
  assumes "Map_get (urls st) code = Some u"
    and "\<forall>c \<in> set cs. call_now c \<le> expiryDate u"
  shows "fst (recordClicks e code cs st) = replicate (length cs) True
       \<and> Map_get (urls (snd (recordClicks e code cs st))) code
            = Some (u\<lparr>clicks := clicks u @ map (click_of e) cs\<rparr>)"
  using assms
proof (induction cs arbitrary: st u)
  case Nil
  then show ?case by simp
next
  case (Cons c cs)
  let ?u1 = "u\<lparr>clicks := clicks u @ [click_of e c]\<rparr>"
  let ?st1 = "logger_call LvInfo ''UrlService.recordClick'' ''Click recorded''
      (saveToStorage e (st\<lparr>urls := Map_set code ?u1 (urls st)\<rparr>))"
  have first: "recordClick e (call_now c) (call_clickTime c) (call_uuid c) code (call_source c) st
      = (True, ?st1)"
    using Cons.prems by (intro recordClick_live) auto
  have get1: "Map_get (urls ?st1) code = Some ?u1" by (simp add: Map_get_set_same)
  have live1: "\<forall>c' \<in> set cs. call_now c' \<le> expiryDate ?u1" using Cons.prems by simp
  from Cons.IH[OF get1 live1]
  have rest: "fst (recordClicks e code cs ?st1) = replicate (length cs) True"
    "Map_get (urls (snd (recordClicks e code cs ?st1))) code
        = Some (?u1\<lparr>clicks := clicks ?u1 @ map (click_of e) cs\<rparr>)"
    by simp_all
  show ?case
    by (simp add: first rest case_prod_unfold Let_def)
qed

text \<open>
  Claim C5, as amended. On an absent \<open>code\<close>, \<open>recordClick\<close> returns \<open>false\<close> and leaves the whole
  state unchanged. On an expired one it returns \<open>false\<close> and appends no click to any record, but
  it leaves the state that \<open>getUrlByShortcode\<close> leaves: the record's \<open>isExpired\<close> flag is set and
  the records are saved. On a live one it returns \<open>true\<close>, appends exactly one \<open>ClickRecord\<close>,
  stamped with the current time, to the end of the record's \<open>clicks\<close>, changes no other entry,
  and saves. A run of calls on a record that stays live returns \<open>true\<close> every time and
  appends their clicks in call order.
\<close>

theorem recordClick_effects:
  "(Map_get (urls st) code = None \<longrightarrow>
      recordClick e now clickTime uuid code src st = (False, st))
   \<and> (Map_get (urls st) code = Some u \<and> expiryDate u < now \<longrightarrow>
        recordClick e now clickTime uuid code src st = (False, snd (getUrlByShortcode e now code st))
      \<and> urls (snd (recordClick e now clickTime uuid code src st))
          = Map_set code (u\<lparr>isExpired := True\<rparr>) (urls st)
      \<and> map (\<lambda>p. clicks (snd p)) (urls (snd (recordClick e now clickTime uuid code src st)))
          = map (\<lambda>p. clicks (snd p)) (urls st))
   \<and> (Map_get (urls st) code = Some u \<and> now \<le> expiryDate u \<longrightarrow>
        fst (recordClick e now clickTime uuid code src st) = True
      \<and> Map_get (urls (snd (recordClick e now clickTime uuid code src st))) code
          = Some (u\<lparr>clicks := clicks u @ [\<lparr>clickId = uuid, timestamp = clickTime,
               source = (case src of None \<Rightarrow> ''direct'' | Some s \<Rightarrow> s),
               userLocation = getUserLocation e\<rparr>]\<rparr>)
      \<and> (\<forall>k. k \<noteq> code \<longrightarrow>
           Map_get (urls (snd (recordClick e now clickTime uuid code src st))) k = Map_get (urls st) k)
      \<and> (has_window e \<and> setItem_ok e (Map_values (urls (snd (recordClick e now clickTime uuid code src st))))
           \<longrightarrow> local_storage (snd (recordClick e now clickTime uuid code src st))
                 = Some (Map_values (urls (snd (recordClick e now clickTime uuid code src st))))))
   \<and> (Map_get (urls st) code = Some u \<and> (\<forall>c \<in> set cs. call_now c \<le> expiryDate u) \<longrightarrow>
        fst (recordClicks e code cs st) = replicate (length cs) True
      \<and> Map_get (urls (snd (recordClicks e code cs st))) code
          = Some (u\<lparr>clicks := clicks u @ map (click_of e) cs\<rparr>))"
proof (intro conjI impI)
  assume "Map_get (urls st) code = None"
  then show "recordClick e now clickTime uuid code src st = (False, st)"
    by (simp add: recordClick_def getUrlByShortcode_absent)
next
  assume a: "Map_get (urls st) code = Some u \<and> expiryDate u < now"
  then show r: "recordClick e now clickTime uuid code src st = (False, snd (getUrlByShortcode e now code st))"
    by (simp add: recordClick_def getUrlByShortcode_expired)
  show u: "urls (snd (recordClick e now clickTime uuid code src st))
          = Map_set code (u\<lparr>isExpired := True\<rparr>) (urls st)"
    using a by (simp add: r getUrlByShortcode_expired)
  show "map (\<lambda>p. clicks (snd p)) (urls (snd (recordClick e now clickTime uuid code src st)))
          = map (\<lambda>p. clicks (snd p)) (urls st)"
    using a by (simp add: u clicks_Map_set_flag)
next
  assume a: "Map_get (urls st) code = Some u \<and> now \<le> expiryDate u"
  then have r: "recordClick e now clickTime uuid code src st
     = (True, logger_call LvInfo ''UrlService.recordClick'' ''Click recorded''
         (saveToStorage e (st\<lparr>urls := Map_set code (u\<lparr>clicks := clicks u @ [\<lparr>clickId = uuid, timestamp = clickTime,
               source = (case src of None \<Rightarrow> ''direct'' | Some s \<Rightarrow> s),
               userLocation = getUserLocation e\<rparr>]\<rparr>) (urls st)\<rparr>)))"
    by (simp add: recordClick_def getUrlByShortcode_live)
  show "fst (recordClick e now clickTime uuid code src st) = True" by (simp add: r)
  show "Map_get (urls (snd (recordClick e now clickTime uuid code src st))) code
          = Some (u\<lparr>clicks := clicks u @ [\<lparr>clickId = uuid, timestamp = clickTime,
               source = (case src of None \<Rightarrow> ''direct'' | Some s \<Rightarrow> s),
               userLocation = getUserLocation e\<rparr>]\<rparr>)"
    by (simp add: r Map_get_set_same)
  show "\<forall>k. k \<noteq> code \<longrightarrow>
           Map_get (urls (snd (recordClick e now clickTime uuid code src st))) k = Map_get (urls st) k"
    by (simp add: r Map_get_set_other)
  show "local_storage (snd (recordClick e now clickTime uuid code src st))
                 = Some (Map_values (urls (snd (recordClick e now clickTime uuid code src st))))"
    if "has_window e \<and> setItem_ok e (Map_values (urls (snd (recordClick e now clickTime uuid code src st))))"
    using that by (simp add: r saveToStorage_persists)
next
  assume a: "Map_get (urls st) code = Some u \<and> (\<forall>c \<in> set cs. call_now c \<le> expiryDate u)"
  then show "fst (recordClicks e code cs st) = replicate (length cs) True"
    using recordClicks_live[of st code u cs e] by simp
  from a show "Map_get (urls (snd (recordClicks e code cs st))) code
          = Some (u\<lparr>clicks := clicks u @ map (click_of e) cs\<rparr>)"
    using recordClicks_live[of st code u cs e] by simp
qed

text \<open>An absent code, an expired record, and two clicks on a live record.\<close>

theorem recordClick_effects_witness:
  "recordClick sample_env 2000 2001 ''c-1'' ''nope'' None sample_registry = (False, sample_registry)
   \<and> fst (recordClick sample_env 62000 62001 ''c-1'' ''abc123'' None sample_registry) = False
   \<and> urls (snd (recordClick sample_env 62000 62001 ''c-1'' ''abc123'' None sample_registry))
       = [(''abc123'', expired_url)]
   \<and> fst (recordClicks sample_env ''abc123'' [first_click, second_click] sample_registry) = [True, True]
   \<and> Map_get (urls (snd (recordClicks sample_env ''abc123'' [first_click, second_click] sample_registry)))
        ''abc123''
       = Some (sample_url\<lparr>clicks :=
           [\<lparr>clickId = ''c-1'', timestamp = 2001, source = ''direct'', userLocation = ''en-US/UTC''\<rparr>,
            \<lparr>clickId = ''c-2'', timestamp = 3001, source = ''https://ref.example'',
              userLocation = ''en-US/UTC''\<rparr>]\<rparr>)"
proof -
  have n: "Map_get (urls sample_registry) ''nope'' = None" by code_simp
  have g: "Map_get (urls sample_registry) ''abc123'' = Some sample_url" by code_simp
  have late: "expiryDate sample_url < 62000" by code_simp
  have live: "\<forall>c \<in> set [first_click, second_click]. call_now c \<le> expiryDate sample_url" by code_simp
  have cl: "clicks sample_url @ map (click_of sample_env) [first_click, second_click]
     = [\<lparr>clickId = ''c-1'', timestamp = 2001, source = ''direct'', userLocation = ''en-US/UTC''\<rparr>,
        \<lparr>clickId = ''c-2'', timestamp = 3001, source = ''https://ref.example'',
          userLocation = ''en-US/UTC''\<rparr>]"
    by code_simp
  have ex: "Map_set ''abc123'' (sample_url\<lparr>isExpired := True\<rparr>) (urls sample_registry)
     = [(''abc123'', expired_url)]"
    by code_simp
  note a = recordClick_effects[of sample_registry "''nope''" sample_env 2000 2001 "''c-1''" None]
  note b = recordClick_effects[of sample_registry "''abc123''" sample_env 62000 62001 "''c-1''" None
      sample_url "[first_click, second_click]"]
  have A: "recordClick sample_env 2000 2001 ''c-1'' ''nope'' None sample_registry = (False, sample_registry)"
    using a n by blast
  have B: "recordClick sample_env 62000 62001 ''c-1'' ''abc123'' None sample_registry
      = (False, snd (getUrlByShortcode sample_env 62000 ''abc123'' sample_registry))
    \<and> urls (snd (recordClick sample_env 62000 62001 ''c-1'' ''abc123'' None sample_registry))
      = Map_set ''abc123'' (sample_url\<lparr>isExpired := True\<rparr>) (urls sample_registry)"
    using b g late by blast
  have B1: "fst (recordClick sample_env 62000 62001 ''c-1'' ''abc123'' None sample_registry) = False"
    by (simp only: B[THEN conjunct1] fst_conv)
  have B2: "urls (snd (recordClick sample_env 62000 62001 ''c-1'' ''abc123'' None sample_registry))
       = [(''abc123'', expired_url)]"
    by (simp only: B[THEN conjunct2] ex)
  have C: "fst (recordClicks sample_env ''abc123'' [first_click, second_click] sample_registry)
      = replicate (length [first_click, second_click]) True
    \<and> Map_get (urls (snd (recordClicks sample_env ''abc123'' [first_click, second_click] sample_registry)))
        ''abc123''
       = Some (sample_url\<lparr>clicks := clicks sample_url @ map (click_of sample_env) [first_click, second_click]\<rparr>)"
    using b g live by blast
  have two: "replicate (length [first_click, second_click]) True = [True, True]" by simp
  have C1: "fst (recordClicks sample_env ''abc123'' [first_click, second_click] sample_registry) = [True, True]"
    using C by (simp only: two)
  have C2: "Map_get (urls (snd (recordClicks sample_env ''abc123'' [first_click, second_click] sample_registry)))
        ''abc123''
       = Some (sample_url\<lparr>clicks :=
           [\<lparr>clickId = ''c-1'', timestamp = 2001, source = ''direct'', userLocation = ''en-US/UTC''\<rparr>,
            \<lparr>clickId = ''c-2'', timestamp = 3001, source = ''https://ref.example'',
              userLocation = ''en-US/UTC''\<rparr>]\<rparr>)"
    using C by (simp only: cl)
  from A B1 B2 C1 C2 show ?thesis by (intro conjI)
qed

text \<open>
  The claim as first stated fails: on an expired record whose flag is not yet set,
  \<open>recordClick\<close> returns \<open>false\<close> and yet changes the record, the stored item, the count of
  writes and the list of logger calls.
\<close>

theorem recordClick_counterexample:
  "fst (recordClick sample_env 62000 62000 ''c-1'' ''abc123'' None sample_registry) = False
   \<and> snd (recordClick sample_env 62000 62000 ''c-1'' ''abc123'' None sample_registry)
       = expired_registry
   \<and> snd (recordClick sample_env 62000 62000 ''c-1'' ''abc123'' None sample_registry)
       \<noteq> sample_registry"
  by code_simp

subsection \<open>Generated shortcodes\<close>

text \<open>
  Claim C8, as amended. When the random source draws, at some attempt, a code that is not a
  key of the map, \<open>generateShortcode\<close> returns; what it returns has six characters, all from
  the 62 alphanumeric characters of \<open>chars\<close>, and is neither a key of the map nor, in a
  well-formed registry, the \<open>shortCode\<close> of a stored record.
\<close>

theorem generateShortcode_returns:
  assumes "\<forall>i. rnd i < length chars"
    and "\<exists>k. \<not> Map_has (urls st) (draw6 rnd (6 * k))"
  shows "\<exists>c. generateShortcode rnd st = Some c
           \<and> length c = 6 \<and> set c \<subseteq> set chars \<and> length chars = 62 \<and> list_all is_alnum c
           \<and> \<not> Map_has (urls st) c
           \<and> (keyed st \<longrightarrow> (\<forall>u \<in> set (Map_values (urls st)). shortCode u \<noteq> c))"
proof -
  from assms(2) obtain k where "\<not> Map_has (urls st) (draw6 rnd (0 + 6 * k))" by auto
  from generateShortcode_from_terminates[OF this]
  obtain c where c: "generateShortcode_from rnd (urls st) 0 = Some c" by blast
  from generateShortcode_from_sound[OF c]
  obtain j where free: "\<not> Map_has (urls st) c" and drawn: "c = draw6 rnd (0 + 6 * j)" by blast
  have len: "length c = 6" unfolding drawn by (rule draw6_length[OF assms(1)])
  have sub: "set c \<subseteq> set chars" unfolding drawn by (rule draw6_chars[OF assms(1)])
  have "list_all is_alnum c"
    using sub is_alnum_chars by (auto simp: list_all_iff)
  moreover have "keyed st \<longrightarrow> (\<forall>u \<in> set (Map_values (urls st)). shortCode u \<noteq> c)"
    using free keyed_has[of st c] by blast
  moreover have "length chars = 62" by (simp add: chars_def)
  ultimately show ?thesis
    using c len sub free by (auto simp: generateShortcode_def)
qed

text \<open>The first draw is taken, the second is returned.\<close>

theorem generateShortcode_returns_witness:
  "generateShortcode retry_source taken_registry = Some ''bbbbbb''
   \<and> \<not> Map_has (urls taken_registry) ''bbbbbb''"
proof -
  have h1: "\<forall>i. retry_source i < length chars" by (simp add: retry_source_def chars_def)
  have d0: "draw6 retry_source 0 = ''aaaaaa''" by code_simp
  have d6: "draw6 retry_source 6 = ''bbbbbb''" by code_simp
  have t0: "Map_has (urls taken_registry) ''aaaaaa''" by code_simp
  have t6: "\<not> Map_has (urls taken_registry) ''bbbbbb''" by code_simp
  have "\<not> Map_has (urls taken_registry) (draw6 retry_source (6 * 1))" using d6 t6 by simp
  then have h2: "\<exists>k. \<not> Map_has (urls taken_registry) (draw6 retry_source (6 * k))" by blast
  from generateShortcode_returns[OF h1 h2]
  obtain c where c: "generateShortcode retry_source taken_registry = Some c"
    and free: "\<not> Map_has (urls taken_registry) c" by blast
  have "generateShortcode_from retry_source (urls taken_registry) 6 = Some ''bbbbbb''"
    by (subst generateShortcode_from.simps) (simp add: d6 t6 Let_def)
  then have "generateShortcode_from retry_source (urls taken_registry) 0 = Some ''bbbbbb''"
    by (subst generateShortcode_from.simps) (simp add: d0 t0 Let_def)
  then have "generateShortcode retry_source taken_registry = Some ''bbbbbb''"
    by (simp add: generateShortcode_def)
  with c free show ?thesis by simp
qed

text \<open>
  The claim as first stated fails: with \<open>aaaaaa\<close> taken and a source that draws index 0 for
  ever, the code \<open>aaaaab\<close> is unused and yet the loop never ends.
\<close>

theorem generateShortcode_counterexample:
  "\<not> Map_has (urls taken_registry) ''aaaaab''
   \<and> generateShortcode zero_source taken_registry = None"
proof
  show "\<not> Map_has (urls taken_registry) ''aaaaab''"
    by (simp add: taken_registry_def Map_has_def)
  have "draw6 zero_source p = ''aaaaaa''" for p
    by (simp add: draw6_def zero_source_def charAt_def chars_def upt_rec[of _ 6])
  then have "\<forall>p. Map_has (urls taken_registry) (draw6 zero_source p)"
    by (simp add: taken_registry_def Map_has_def)
  then show "generateShortcode zero_source taken_registry = None"
    unfolding generateShortcode_def by (rule generateShortcode_from_all_taken)
qed

subsection \<open>Deleting\<close>

text \<open>
  Claim C10. \<open>deleteUrl\<close> on a \<open>code\<close> that is not in the map returns \<open>false\<close> and leaves the
  state unchanged: the map, the stored item, the count of writes and the list of logger calls.
  On a \<open>code\<close> in the map it
  returns \<open>true\<close>, removes that entry only, and saves: in a browser \<open>setItem\<close> is called once
  and, when the store accepts the write, the stored item is the array of the records left.
\<close>

theorem deleteUrl_frame:
  "(\<not> Map_has (urls st) code \<longrightarrow> deleteUrl e code st = (False, st))
   \<and> (Map_has (urls st) code \<longrightarrow>
        fst (deleteUrl e code st) = True
      \<and> urls (snd (deleteUrl e code st)) = Map_delete code (urls st)
      \<and> \<not> Map_has (urls (snd (deleteUrl e code st))) code
      \<and> (\<forall>k. k \<noteq> code \<longrightarrow> Map_get (urls (snd (deleteUrl e code st))) k = Map_get (urls st) k)
      \<and> (has_window e \<longrightarrow> setItem_calls (snd (deleteUrl e code st)) = Suc (setItem_calls st))
      \<and> (has_window e \<and> setItem_ok e (Map_values (Map_delete code (urls st))) \<longrightarrow>
           local_storage (snd (deleteUrl e code st)) = Some (Map_values (Map_delete code (urls st)))))"
  by (auto simp: deleteUrl_def Let_def Map_delete_absent Map_has_delete Map_get_delete_other
        saveToStorage_counts saveToStorage_persists)

text \<open>Deleting an absent and a present code.\<close>

theorem deleteUrl_frame_witness:
  "deleteUrl sample_env ''nope'' sample_registry = (False, sample_registry)
   \<and> deleteUrl sample_env ''abc123'' sample_registry
       = (True, \<lparr>urls = [], local_storage = Some [], setItem_calls = 2,
            logger_calls = created_calls @ [(LvDebug, ''UrlService.saveToStorage'', ''Saved 0 URLs to storage''),
              (LvInfo, ''UrlService.deleteUrl'', ''URL deleted'')]\<rparr>)"
proof -
  have n: "\<not> Map_has (urls sample_registry) ''nope''" by code_simp
  have h: "Map_has (urls sample_registry) ''abc123''" by code_simp
  have "deleteUrl sample_env ''nope'' sample_registry = (False, sample_registry)"
    using deleteUrl_frame[of sample_registry "''nope''" sample_env] n by simp
  moreover have "fst (deleteUrl sample_env ''abc123'' sample_registry) = True"
    using deleteUrl_frame[of sample_registry "''abc123''" sample_env] h by simp
  moreover have "snd (deleteUrl sample_env ''abc123'' sample_registry)
      = \<lparr>urls = [], local_storage = Some [], setItem_calls = 2,
            logger_calls = created_calls @ [(LvDebug, ''UrlService.saveToStorage'', ''Saved 0 URLs to storage''),
              (LvInfo, ''UrlService.deleteUrl'', ''URL deleted'')]\<rparr>"
    by code_simp
  ultimately show ?thesis by (simp add: prod_eq_iff)
qed

section \<open>Properties of the logger\<close>

lemma length_keep_last: "length (keep_last n xs) \<le> n"
  by (simp add: keep_last_def)

lemma keep_last_short: "length xs \<le> n \<Longrightarrow> keep_last n xs = xs"
  by (simp add: keep_last_def)

lemma keep_last_if:
  "(if length xs > n then drop (length xs - n) xs else xs) = keep_last n xs"
  by (simp add: keep_last_def)

lemma keep_last_append:
  "keep_last n (keep_last n xs @ ys) = keep_last n (xs @ ys)"
proof (cases "length xs \<le> n")
  case True
  then show ?thesis by (simp add: keep_last_short)
next
  case False
  then show ?thesis by (simp add: keep_last_def add.commute)
qed

lemma last_keep_last: "0 < n \<Longrightarrow> last (keep_last n (xs @ [x])) = x"
  by (simp add: keep_last_def)

lemma keep_last_snoc_nonempty: "0 < n \<Longrightarrow> keep_last n (xs @ [x]) \<noteq> []"
  by (simp add: keep_last_def)

lemma storeInSession_cases:
  "\<exists>st'. storeInSession e x st = Inr st'
     \<and> logs st' = logs st \<and> requests st' = requests st
     \<and> testServerEndpoint st' = testServerEndpoint st
     \<and> (session st' = session st
        \<or> (session st \<noteq> Corrupt \<and> session st' = Stored (keep_last 100 (stored_entries (session st) @ [x]))))"
  by (cases "session st")
     (auto simp: storeInSession_def try_catch_def and_then_def session_setItem_def Let_def keep_last_if)

lemma storeInSession_written:
  assumes "has_window e" and "\<forall>xs. session_setItem_ok e xs" and "session st \<noteq> Corrupt"
    and "list_all stringify_ok (stored_entries (session st))" and "stringify_ok x"
  shows "storeInSession e x st
     = Inr (st\<lparr>session := Stored (keep_last 100 (stored_entries (session st) @ [x]))\<rparr>)"
proof -
  have "list_all stringify_ok (keep_last 100 (stored_entries (session st) @ [x]))"
    using assms(4,5) unfolding keep_last_def list_all_iff by (auto dest: in_set_dropD)
  then show ?thesis
    using assms(1-3)
    by (cases "session st")
       (auto simp: storeInSession_def try_catch_def and_then_def session_setItem_def Let_def keep_last_if)
qed

lemma addLog_eq:
  "addLog e x st = storeInSession e x (st\<lparr>logs := keep_last maxLogs (logs st @ [x])\<rparr>)"
  by (simp add: addLog_def Let_def keep_last_def)

lemma session_bounded_keep_last [simp]: "session_bounded (Stored (keep_last 100 xs))"
  by (simp add: session_bounded_def length_keep_last)

lemma stringify_ok_failed_entry [simp]: "stringify_ok (failed_entry pr status x) = stringify_ok x"
  by (simp add: failed_entry_def)

lemma stringify_ok_unavailable_entry [simp]: "stringify_ok (unavailable_entry pr err x) = stringify_ok x"
  by (simp add: unavailable_entry_def)

lemma list_all_keep_last: "list_all P xs \<Longrightarrow> list_all P (keep_last n xs)"
  unfolding keep_last_def list_all_iff by (auto dest: in_set_dropD)

lemma sendToTestServer_call_cases:
  "\<exists>st'. sendToTestServer_call e pr x st = Inr st'
     \<and> logs st' = logs st \<and> testServerEndpoint st' = testServerEndpoint st
     \<and> (session st' = session st
        \<or> (\<exists>w. session st \<noteq> Corrupt
              \<and> session st' = Stored (keep_last 100 (stored_entries (session st) @ [w]))))"
proof (cases "has_window e \<and> \<not> stringify_ok x")
  case True
  then have "sendToTestServer_call e pr x st
      = storeInSession e (unavailable_entry pr (Error ''TypeError'') x) st"
    by (simp add: sendToTestServer_call_def try_catch_def)
  with storeInSession_cases[of e "unavailable_entry pr (Error ''TypeError'') x" st]
  show ?thesis by auto
next
  case False
  then show ?thesis by (auto simp: sendToTestServer_call_def try_catch_def)
qed

lemma sendToTestServer_call_sent:
  "has_window e \<Longrightarrow> stringify_ok x \<Longrightarrow>
   sendToTestServer_call e pr x st = Inr (st\<lparr>requests := requests st @ [(testServerEndpoint st, x)]\<rparr>)"
  by (simp add: sendToTestServer_call_def try_catch_def)

lemma settle_eq:
  "sendToTestServer_settle e pr x (Rejected reason) st
     = storeInSession e (unavailable_entry pr (Error reason) x) st"
  "\<not> response_ok status \<Longrightarrow>
   sendToTestServer_settle e pr x (Response status) st = storeInSession e (failed_entry pr status x) st"
  "response_ok status \<Longrightarrow> sendToTestServer_settle e pr x (Response status) st = Inr st"
proof -
  show "sendToTestServer_settle e pr x (Rejected reason) st
     = storeInSession e (unavailable_entry pr (Error reason) x) st"
    by (simp add: sendToTestServer_settle_def try_catch_def)
  show "sendToTestServer_settle e pr x (Response status) st = storeInSession e (failed_entry pr status x) st"
    if "\<not> response_ok status"
    using that storeInSession_cases[of e "failed_entry pr status x" st]
    by (auto simp: sendToTestServer_settle_def try_catch_def)
  show "sendToTestServer_settle e pr x (Response status) st = Inr st" if "response_ok status"
    using that by (simp add: sendToTestServer_settle_def try_catch_def)
qed

lemma settle_cases:
  "\<exists>st'. sendToTestServer_settle e pr x r st = Inr st'
     \<and> logs st' = logs st \<and> requests st' = requests st
     \<and> testServerEndpoint st' = testServerEndpoint st
     \<and> (session st' = session st
        \<or> (\<exists>w. session st \<noteq> Corrupt
              \<and> session st' = Stored (keep_last 100 (stored_entries (session st) @ [w]))))"
proof (cases r)
  case (Response status)
  show ?thesis
  proof (cases "response_ok status")
    case True
    then show ?thesis by (simp add: Response settle_eq)
  next
    case False
    with storeInSession_cases[of e "failed_entry pr status x" st] show ?thesis
      by (auto simp: Response settle_eq)
  qed
next
  case (Rejected reason)
  with storeInSession_cases[of e "unavailable_entry pr (Error reason) x" st] show ?thesis
    by (auto simp: settle_eq)
qed

lemma Log_cases:
  "\<exists>st'. Log e ts pr stk lvl p m c st = Inr st'
     \<and> logs st' = keep_last maxLogs (logs st @ [LogEntry ts stk lvl p m c])
     \<and> testServerEndpoint st' = testServerEndpoint st
     \<and> (session_bounded (session st) \<longrightarrow> session_bounded (session st'))"
proof -
  let ?x = "LogEntry ts stk lvl p m c"
  let ?st0 = "st\<lparr>logs := keep_last maxLogs (logs st @ [?x])\<rparr>"
  from storeInSession_cases[of e ?x ?st0]
  obtain st1 where st1: "addLog e ?x st = Inr st1" "logs st1 = keep_last maxLogs (logs st @ [?x])"
    "testServerEndpoint st1 = testServerEndpoint st"
    "session st1 = session st \<or> (session st \<noteq> Corrupt
        \<and> session st1 = Stored (keep_last 100 (stored_entries (session st) @ [?x])))"
    by (auto simp: addLog_eq)
  from sendToTestServer_call_cases[of e pr ?x st1]
  obtain st2 where st2: "sendToTestServer_call e pr ?x st1 = Inr st2" "logs st2 = logs st1"
    "testServerEndpoint st2 = testServerEndpoint st1"
    "session st2 = session st1 \<or> (\<exists>w. session st1 \<noteq> Corrupt
        \<and> session st2 = Stored (keep_last 100 (stored_entries (session st1) @ [w])))"
    by auto
  have "Log e ts pr stk lvl p m c st = Inr st2"
    by (simp add: Log_def Let_def and_then_def st1(1) st2(1))
  moreover have "session_bounded (session st) \<longrightarrow> session_bounded (session st2)"
    using st1(4) st2(4) by auto
  ultimately show ?thesis using st1 st2 by simp
qed

lemma invoke_Log: "invoke e how ts pr stk p m c st = Log e ts pr stk (level_of how) p m c st"
  by (cases how) (simp_all add: info_def warn_def error_log_def debug_def fatal_def)

lemma primary_trace_keep_last:
  "keep_last n (primary_trace (keep_last n acc) evs) = keep_last n (primary_trace acc evs)"
proof (induction evs arbitrary: acc)
  case Nil
  then show ?case by (simp add: keep_last_short length_keep_last)
next
  case (Cons ev evs)
  show ?case
  proof (cases ev)
    case (Call how ts pr stk p m c)
    let ?x = "LogEntry ts stk (level_of how) p m c"
    have "keep_last n (primary_trace (keep_last n acc @ [?x]) evs)
        = keep_last n (primary_trace (keep_last n (keep_last n acc @ [?x])) evs)"
      by (rule Cons.IH[symmetric])
    also have "\<dots> = keep_last n (primary_trace (keep_last n (acc @ [?x])) evs)"
      by (simp only: keep_last_append)
    also have "\<dots> = keep_last n (primary_trace (acc @ [?x]) evs)"
      by (rule Cons.IH)
    finally show ?thesis by (simp add: Call)
  qed (simp_all add: Cons.IH)
qed

lemma secondary_trace_keep_last:
  "keep_last n (secondary_trace (keep_last n acc) evs) = keep_last n (secondary_trace acc evs)"
proof (induction evs arbitrary: acc)
  case Nil
  then show ?case by (simp add: keep_last_short length_keep_last)
next
  case (Cons ev evs)
  have snoc: "keep_last n (secondary_trace (keep_last n acc @ [x]) evs)
        = keep_last n (secondary_trace (acc @ [x]) evs)" for x
  proof -
    have "keep_last n (secondary_trace (keep_last n acc @ [x]) evs)
        = keep_last n (secondary_trace (keep_last n (keep_last n acc @ [x])) evs)"
      by (rule Cons.IH[symmetric])
    also have "\<dots> = keep_last n (secondary_trace (keep_last n (acc @ [x])) evs)"
      by (simp only: keep_last_append)
    also have "\<dots> = keep_last n (secondary_trace (acc @ [x]) evs)"
      by (rule Cons.IH)
    finally show ?thesis .
  qed
  show ?case
  proof (cases ev)
    case (Call how ts pr stk p m c)
    then show ?thesis by (simp add: snoc)
  next
    case (Settle pr x r)
    then show ?thesis by (cases r) (simp_all add: snoc Cons.IH)
  qed (simp_all add: Cons.IH)
qed

lemma step_buffers:
  assumes "length (logs st) \<le> maxLogs" and "session_bounded (session st)"
  shows "\<exists>st'. step e ev st = Inr st'
     \<and> logs st' = keep_last maxLogs (primary_trace (logs st) [ev])
     \<and> session_bounded (session st')"
proof (cases ev)
  case (Call how ts pr stk p m c)
  with Log_cases[of e ts pr stk "level_of how" p m c st] assms(2) show ?thesis
    by (auto simp: invoke_Log)
next
  case (Settle pr x r)
  with settle_cases[of e pr x r st] assms show ?thesis
    by (auto simp: keep_last_short)
next
  case ClearLogs
  with assms(2) show ?thesis by (simp add: clearLogs_def Let_def keep_last_def session_bounded_def)
next
  case (SetEndpoint endpoint)
  with assms show ?thesis by (simp add: setTestServerEndpoint_def keep_last_short)
qed

lemma primary_trace_Cons:
  "keep_last n (primary_trace (keep_last n (primary_trace acc [ev])) evs)
     = keep_last n (primary_trace acc (ev # evs))"
  unfolding primary_trace_keep_last
  by (cases ev) simp_all

lemma run_buffers:
  assumes "length (logs st) \<le> maxLogs" and "session_bounded (session st)"
  shows "\<exists>st'. run e evs st = Inr st'
     \<and> logs st' = keep_last maxLogs (primary_trace (logs st) evs)
     \<and> session_bounded (session st')"
  using assms
proof (induction evs arbitrary: st)
  case Nil
  then show ?case by (simp add: keep_last_short)
next
  case (Cons ev evs)
  from step_buffers[OF Cons.prems, of e ev]
  obtain st1 where st1: "step e ev st = Inr st1"
    "logs st1 = keep_last maxLogs (primary_trace (logs st) [ev])" "session_bounded (session st1)"
    by blast
  have "length (logs st1) \<le> maxLogs" by (simp add: st1(2) length_keep_last)
  from Cons.IH[OF this st1(3)]
  obtain st' where st': "run e evs st1 = Inr st'"
    "logs st' = keep_last maxLogs (primary_trace (logs st1) evs)" "session_bounded (session st')"
    by blast
  have "logs st' = keep_last maxLogs (primary_trace (logs st) (ev # evs))"
    unfolding st'(2) st1(2) by (rule primary_trace_Cons)
  then show ?case using st1(1) st'(1,3) by (simp add: and_then_def)
qed

lemma Log_written:
  assumes "has_window e" and "\<forall>xs. session_setItem_ok e xs" and "session st \<noteq> Corrupt"
    and "list_all stringify_ok (stored_entries (session st))"
    and "stringify_ok (LogEntry ts stk lvl p m c)"
  shows "Log e ts pr stk lvl p m c st
     = Inr (st\<lparr>logs := keep_last maxLogs (logs st @ [LogEntry ts stk lvl p m c]),
              session := Stored (keep_last 100 (stored_entries (session st) @ [LogEntry ts stk lvl p m c])),
              requests := requests st @ [(testServerEndpoint st, LogEntry ts stk lvl p m c)]\<rparr>)"
proof -
  let ?x = "LogEntry ts stk lvl p m c"
  let ?st0 = "st\<lparr>logs := keep_last maxLogs (logs st @ [?x])\<rparr>"
  have "storeInSession e ?x ?st0
      = Inr (?st0\<lparr>session := Stored (keep_last 100 (stored_entries (session ?st0) @ [?x]))\<rparr>)"
    using assms by (intro storeInSession_written) simp_all
  then have "addLog e ?x st
      = Inr (?st0\<lparr>session := Stored (keep_last 100 (stored_entries (session st) @ [?x]))\<rparr>)"
    by (simp add: addLog_eq)
  then show ?thesis
    using assms(1,5) by (simp add: Log_def Let_def and_then_def sendToTestServer_call_sent)
qed

lemma step_session:
  assumes "has_window e" and "\<forall>xs. session_setItem_ok e xs" and "session st \<noteq> Corrupt"
    and "list_all stringify_ok (stored_entries (session st))"
    and "session_bounded (session st)" and "serialisable ev"
  shows "\<exists>st'. step e ev st = Inr st' \<and> session st' \<noteq> Corrupt
     \<and> list_all stringify_ok (stored_entries (session st'))
     \<and> session_bounded (session st')
     \<and> stored_entries (session st') = keep_last 100 (secondary_trace (stored_entries (session st)) [ev])"
proof -
  have same: "keep_last 100 (stored_entries (session st)) = stored_entries (session st)"
    using assms(5) by (simp add: session_bounded_def keep_last_short)
  have store: "storeInSession e w st
      = Inr (st\<lparr>session := Stored (keep_last 100 (stored_entries (session st) @ [w]))\<rparr>)"
    if "stringify_ok w" for w
    using assms(1-4) that by (rule storeInSession_written)
  show ?thesis
  proof (cases ev)
    case (Call how ts pr stk p m c)
    with assms(6) have ok: "stringify_ok (LogEntry ts stk (level_of how) p m c)" by simp
    show ?thesis
      using assms(4) ok
      by (simp add: Call invoke_Log Log_written[OF assms(1-4) ok] list_all_keep_last)
  next
    case (Settle pr x r)
    with assms(6) have ok: "stringify_ok x" by simp
    show ?thesis
    proof (cases r)
      case (Response status)
      show ?thesis
      proof (cases "response_ok status")
        case True
        with assms(3-5) show ?thesis by (simp add: Settle Response settle_eq same)
      next
        case False
        with assms(4) ok show ?thesis
          by (simp add: Settle Response settle_eq store list_all_keep_last)
      qed
    next
      case (Rejected reason)
      with assms(4) ok show ?thesis
        by (simp add: Settle settle_eq store list_all_keep_last)
    qed
  next
    case ClearLogs
    with assms(1) show ?thesis
      by (simp add: clearLogs_def Let_def session_bounded_def keep_last_def)
  next
    case (SetEndpoint endpoint)
    with assms(3-5) show ?thesis by (simp add: setTestServerEndpoint_def same)
  qed
qed

lemma secondary_trace_Cons:
  "keep_last n (secondary_trace (keep_last n (secondary_trace acc [ev])) evs)
     = keep_last n (secondary_trace acc (ev # evs))"
  unfolding secondary_trace_keep_last
proof (cases ev)
  case (Settle pr x r)
  then show "keep_last n (secondary_trace (secondary_trace acc [ev]) evs)
     = keep_last n (secondary_trace acc (ev # evs))"
    by (cases r) simp_all
qed simp_all

lemma run_session:
  assumes "has_window e" and "\<forall>xs. session_setItem_ok e xs" and "session st \<noteq> Corrupt"
    and "list_all stringify_ok (stored_entries (session st))"
    and "session_bounded (session st)" and "list_all serialisable evs"
  shows "\<exists>st'. run e evs st = Inr st'
     \<and> stored_entries (session st') = keep_last 100 (secondary_trace (stored_entries (session st)) evs)"
  using assms(3-6)
proof (induction evs arbitrary: st)
  case Nil
  then show ?case by (simp add: session_bounded_def keep_last_short)
next
  case (Cons ev evs)
  from Cons.prems(4) have ev: "serialisable ev" and evs: "list_all serialisable evs" by simp_all
  from step_session[OF assms(1,2) Cons.prems(1-3) ev]
  obtain st1 where st1: "step e ev st = Inr st1" "session st1 \<noteq> Corrupt"
    "list_all stringify_ok (stored_entries (session st1))" "session_bounded (session st1)"
    "stored_entries (session st1) = keep_last 100 (secondary_trace (stored_entries (session st)) [ev])"
    by blast
  from Cons.IH[OF st1(2-4) evs]
  obtain st' where st': "run e evs st1 = Inr st'"
    "stored_entries (session st') = keep_last 100 (secondary_trace (stored_entries (session st1)) evs)"
    by blast
  have "stored_entries (session st')
      = keep_last 100 (secondary_trace (stored_entries (session st)) (ev # evs))"
    unfolding st'(2) st1(5) by (rule secondary_trace_Cons)
  then show ?case using st1(1) st'(1) by (simp add: and_then_def)
qed

text \<open>
  Claim C7. From a logger whose buffers are within their bounds (as they are when it is
  constructed), every sequence of calls of \<open>Log\<close> and its convenience forms, ends of requests,
  \<open>clearLogs\<close> and \<open>setTestServerEndpoint\<close> runs without a raised error and leaves at most
  1000 entries in the primary buffer: \<open>getLogs\<close> returns the last 1000 of the entries logged
  since the last \<open>clearLogs\<close>, oldest first, so the oldest are the ones dropped. The session
  item holds at most 100 entries; in a browser whose session store takes every write it holds
  the last 100 of the entries handed to it, oldest first.
\<close>

theorem buffers_bounded:
  assumes "length (logs st) \<le> maxLogs" and "session_bounded (session st)"
  shows "\<exists>st'. run e evs st = Inr st'
     \<and> length (getLogs st') \<le> 1000
     \<and> getLogs st' = keep_last 1000 (primary_trace (logs st) evs)
     \<and> length (stored_entries (session st')) \<le> 100
     \<and> (has_window e \<and> (\<forall>xs. session_setItem_ok e xs) \<and> session st \<noteq> Corrupt
          \<and> list_all stringify_ok (stored_entries (session st)) \<and> list_all serialisable evs \<longrightarrow>
        stored_entries (session st')
          = keep_last 100 (secondary_trace (stored_entries (session st)) evs))"
proof -
  from run_buffers[OF assms, of e evs]
  obtain st' where st': "run e evs st = Inr st'"
    "logs st' = keep_last maxLogs (primary_trace (logs st) evs)" "session_bounded (session st')"
    by blast
  have "stored_entries (session st')
          = keep_last 100 (secondary_trace (stored_entries (session st)) evs)"
    if "has_window e \<and> (\<forall>xs. session_setItem_ok e xs) \<and> session st \<noteq> Corrupt
          \<and> list_all stringify_ok (stored_entries (session st)) \<and> list_all serialisable evs"
    using run_session[of e st evs] that assms(2) st'(1) by auto
  moreover have "length (getLogs st') \<le> 1000"
    using length_keep_last[of maxLogs] by (simp add: getLogs_def st'(2) maxLogs_def)
  ultimately show ?thesis
    using st' by (auto simp: getLogs_def maxLogs_def session_bounded_def)
qed

text \<open>
  Both buffers full, then one call and the failed delivery of its entry: each buffer drops
  its oldest entries and keeps the new ones at the end.
\<close>

theorem buffers_bounded_witness:
  "\<exists>st'. run sample_env sample_events full_logger = Inr st'
     \<and> getLogs st' = replicate 999 old_entry @ [new_entry]
     \<and> length (getLogs st') = 1000
     \<and> stored_entries (session st')
         = replicate 98 old_entry @ [new_entry, failed_entry sample_probe 500 new_entry]
     \<and> length (stored_entries (session st')) = 100"
proof -
  have h1: "length (logs full_logger) \<le> maxLogs" by (simp add: full_logger_def maxLogs_def)
  have h2: "session_bounded (session full_logger)" by (simp add: full_logger_def session_bounded_def)
  have w: "has_window sample_env \<and> (\<forall>xs. session_setItem_ok sample_env xs)
      \<and> session full_logger \<noteq> Corrupt
      \<and> list_all stringify_ok (stored_entries (session full_logger))
      \<and> list_all serialisable sample_events"
    by (simp add: sample_env_def full_logger_def sample_events_def old_entry_def new_entry_def
          list_all_iff)
  have p: "keep_last 1000 (primary_trace (logs full_logger) sample_events)
      = replicate 999 old_entry @ [new_entry]"
    by (simp add: full_logger_def sample_events_def new_entry_def keep_last_def)
  have s: "keep_last 100 (secondary_trace (stored_entries (session full_logger)) sample_events)
      = replicate 98 old_entry @ [new_entry, failed_entry sample_probe 500 new_entry]"
    by (simp add: full_logger_def sample_events_def new_entry_def keep_last_def response_ok_def)
  from buffers_bounded[OF h1 h2, of sample_env sample_events] w
  obtain st' where "run sample_env sample_events full_logger = Inr st'"
    "getLogs st' = keep_last 1000 (primary_trace (logs full_logger) sample_events)"
    "stored_entries (session st')
       = keep_last 100 (secondary_trace (stored_entries (session full_logger)) sample_events)"
    by blast
  then show ?thesis by (simp add: p s)
qed

text \<open>
  Claim C9. A call of \<open>Log\<close> or of a convenience form returns normally, whatever the platform
  does, and the new entry is the last of the primary buffer. When a request ends with a
  status in 200..299 nothing changes. When it ends with another status, or is rejected, the
  call returns normally, the primary buffer and the list of requests made are unchanged, and
  the state is either unchanged (the session store failed) or has one new entry at the end of
  the session item, which it has whenever the session store works. That entry is tagged
  \<open>warn\<close>, below \<open>error\<close> and \<open>fatal\<close>, and comes from \<open>LoggingMiddleware\<close>.
\<close>

theorem Log_never_raises:
  "(\<exists>st'. invoke e how ts pr stk p m c st = Inr st'
       \<and> getLogs st' \<noteq> []
       \<and> last (getLogs st') = LogEntry ts stk (level_of how) p m c
       \<and> getLogs st' = keep_last 1000 (logs st @ [LogEntry ts stk (level_of how) p m c])
       \<and> (length (logs st) < 1000 \<longrightarrow> getLogs st' = logs st @ [LogEntry ts stk (level_of how) p m c]))
   \<and> (response_ok status \<longrightarrow> sendToTestServer_settle e pr x (Response status) st = Inr st)
   \<and> (\<not> response_ok status \<longrightarrow>
        (\<exists>st'. sendToTestServer_settle e pr x (Response status) st = Inr st'
           \<and> logs st' = logs st \<and> requests st' = requests st
           \<and> (st' = st \<or> st' = st\<lparr>session := Stored (keep_last 100
                 (stored_entries (session st) @ [failed_entry pr status x]))\<rparr>)
           \<and> (has_window e \<and> (\<forall>xs. session_setItem_ok e xs) \<and> session st \<noteq> Corrupt
                \<and> list_all stringify_ok (stored_entries (session st)) \<and> stringify_ok x \<longrightarrow>
               st' = st\<lparr>session := Stored (keep_last 100
                 (stored_entries (session st) @ [failed_entry pr status x]))\<rparr>)))
   \<and> (\<exists>st'. sendToTestServer_settle e pr x (Rejected reason) st = Inr st'
         \<and> logs st' = logs st \<and> requests st' = requests st
         \<and> (st' = st \<or> st' = st\<lparr>session := Stored (keep_last 100
               (stored_entries (session st) @ [unavailable_entry pr (Error reason) x]))\<rparr>)
         \<and> (has_window e \<and> (\<forall>xs. session_setItem_ok e xs) \<and> session st \<noteq> Corrupt
              \<and> list_all stringify_ok (stored_entries (session st)) \<and> stringify_ok x \<longrightarrow>
             st' = st\<lparr>session := Stored (keep_last 100
               (stored_entries (session st) @ [unavailable_entry pr (Error reason) x]))\<rparr>))
   \<and> level (failed_entry pr status x) = LvWarn
   \<and> package (failed_entry pr status x) = ''LoggingMiddleware''
   \<and> level (unavailable_entry pr (Error reason) x) = LvWarn
   \<and> package (unavailable_entry pr (Error reason) x) = ''LoggingMiddleware''"
proof -
  have store: "\<exists>st'. storeInSession e w st = Inr st'
         \<and> logs st' = logs st \<and> requests st' = requests st
         \<and> (st' = st \<or> st' = st\<lparr>session := Stored (keep_last 100 (stored_entries (session st) @ [w]))\<rparr>)
         \<and> (has_window e \<and> (\<forall>xs. session_setItem_ok e xs) \<and> session st \<noteq> Corrupt
              \<and> list_all stringify_ok (stored_entries (session st)) \<and> stringify_ok x \<longrightarrow>
             st' = st\<lparr>session := Stored (keep_last 100 (stored_entries (session st) @ [w]))\<rparr>)"
    if "stringify_ok w = stringify_ok x" for w
  proof (cases "has_window e \<and> (\<forall>xs. session_setItem_ok e xs) \<and> session st \<noteq> Corrupt
              \<and> list_all stringify_ok (stored_entries (session st)) \<and> stringify_ok x")
    case True
    then have "storeInSession e w st
        = Inr (st\<lparr>session := Stored (keep_last 100 (stored_entries (session st) @ [w]))\<rparr>)"
      using that by (intro storeInSession_written) simp_all
    then show ?thesis by simp
  next
    case False
    have "\<exists>st'. storeInSession e w st = Inr st'
         \<and> (st' = st \<or> st' = st\<lparr>session := Stored (keep_last 100 (stored_entries (session st) @ [w]))\<rparr>)"
      by (cases "session st")
         (auto simp: storeInSession_def try_catch_def and_then_def session_setItem_def Let_def
            keep_last_if)
    with False show ?thesis by auto
  qed
  have call: "\<exists>st'. invoke e how ts pr stk p m c st = Inr st'
       \<and> getLogs st' \<noteq> []
       \<and> last (getLogs st') = LogEntry ts stk (level_of how) p m c
       \<and> getLogs st' = keep_last 1000 (logs st @ [LogEntry ts stk (level_of how) p m c])
       \<and> (length (logs st) < 1000 \<longrightarrow> getLogs st' = logs st @ [LogEntry ts stk (level_of how) p m c])"
  proof -
    from Log_cases[of e ts pr stk "level_of how" p m c st]
    obtain st' where st': "Log e ts pr stk (level_of how) p m c st = Inr st'"
      "logs st' = keep_last maxLogs (logs st @ [LogEntry ts stk (level_of how) p m c])"
      by blast
    have "keep_last 1000 (logs st @ [LogEntry ts stk (level_of how) p m c])
        = logs st @ [LogEntry ts stk (level_of how) p m c]" if "length (logs st) < 1000"
      using that by (intro keep_last_short) simp
    then show ?thesis
      using st' by (simp add: invoke_Log getLogs_def maxLogs_def last_keep_last keep_last_snoc_nonempty)
  qed
  have ok: "response_ok status \<longrightarrow> sendToTestServer_settle e pr x (Response status) st = Inr st"
    by (simp add: settle_eq)
  have bad: "\<not> response_ok status \<longrightarrow>
        (\<exists>st'. sendToTestServer_settle e pr x (Response status) st = Inr st'
           \<and> logs st' = logs st \<and> requests st' = requests st
           \<and> (st' = st \<or> st' = st\<lparr>session := Stored (keep_last 100
                 (stored_entries (session st) @ [failed_entry pr status x]))\<rparr>)
           \<and> (has_window e \<and> (\<forall>xs. session_setItem_ok e xs) \<and> session st \<noteq> Corrupt
                \<and> list_all stringify_ok (stored_entries (session st)) \<and> stringify_ok x \<longrightarrow>
               st' = st\<lparr>session := Stored (keep_last 100
                 (stored_entries (session st) @ [failed_entry pr status x]))\<rparr>))"
    using store[of "failed_entry pr status x"] by (simp add: settle_eq)
  have rej: "\<exists>st'. sendToTestServer_settle e pr x (Rejected reason) st = Inr st'
         \<and> logs st' = logs st \<and> requests st' = requests st
         \<and> (st' = st \<or> st' = st\<lparr>session := Stored (keep_last 100
               (stored_entries (session st) @ [unavailable_entry pr (Error reason) x]))\<rparr>)
         \<and> (has_window e \<and> (\<forall>xs. session_setItem_ok e xs) \<and> session st \<noteq> Corrupt
              \<and> list_all stringify_ok (stored_entries (session st)) \<and> stringify_ok x \<longrightarrow>
             st' = st\<lparr>session := Stored (keep_last 100
               (stored_entries (session st) @ [unavailable_entry pr (Error reason) x]))\<rparr>)"
    using store[of "unavailable_entry pr (Error reason) x"] by (simp add: settle_eq)
  have lv: "level (failed_entry pr status x) = LvWarn"
    "package (failed_entry pr status x) = ''LoggingMiddleware''"
    "level (unavailable_entry pr (Error reason) x) = LvWarn"
    "package (unavailable_entry pr (Error reason) x) = ''LoggingMiddleware''"
    by (simp_all add: failed_entry_def unavailable_entry_def)
  from call ok bad rej lv show ?thesis by (intro conjI)
qed

text \<open>One call on a fresh logger, and its request ending with 200, with 500 and by rejection.\<close>

theorem Log_never_raises_witness:
  "invoke sample_env ByInfo ''2024-01-01T00:00:01.000Z'' sample_probe ''UrlService.shortenUrl''
      ''frontend'' ''URL shortened successfully'' (Some (Value (Json ''{}''))) fresh_logger
     = Inr logged_once
   \<and> sendToTestServer_settle sample_env sample_probe new_entry (Response 200) logged_once
       = Inr logged_once
   \<and> sendToTestServer_settle sample_env sample_probe new_entry (Response 500) logged_once
       = Inr (logged_once\<lparr>session := Stored [new_entry, failed_entry sample_probe 500 new_entry]\<rparr>)
   \<and> message (failed_entry sample_probe 500 new_entry) = ''Failed to send log to test server: 500''
   \<and> sendToTestServer_settle sample_env sample_probe new_entry (Rejected ''Failed to fetch'') logged_once
       = Inr (logged_once\<lparr>session := Stored [new_entry,
            unavailable_entry sample_probe (Error ''Failed to fetch'') new_entry]\<rparr>)"
proof -
  note t = Log_never_raises[where e = sample_env and pr = sample_probe and x = new_entry
      and st = logged_once and reason = "''Failed to fetch''"]
  have good: "response_ok 200" and bad: "\<not> response_ok 500" by (simp_all add: response_ok_def)
  have w: "has_window sample_env \<and> (\<forall>xs. session_setItem_ok sample_env xs)
      \<and> session logged_once \<noteq> Corrupt
      \<and> list_all stringify_ok (stored_entries (session logged_once)) \<and> stringify_ok new_entry"
    by (simp add: sample_env_def logged_once_def new_entry_def)
  have k1: "keep_last 100 (stored_entries (session logged_once) @ [failed_entry sample_probe 500 new_entry])
      = [new_entry, failed_entry sample_probe 500 new_entry]"
    by (simp add: logged_once_def keep_last_def)
  have k2: "keep_last 100 (stored_entries (session logged_once)
        @ [unavailable_entry sample_probe (Error ''Failed to fetch'') new_entry])
      = [new_entry, unavailable_entry sample_probe (Error ''Failed to fetch'') new_entry]"
    by (simp add: logged_once_def keep_last_def)
  have a: "invoke sample_env ByInfo ''2024-01-01T00:00:01.000Z'' sample_probe ''UrlService.shortenUrl''
      ''frontend'' ''URL shortened successfully'' (Some (Value (Json ''{}''))) fresh_logger
     = Inr logged_once"
    by code_simp
  have b: "sendToTestServer_settle sample_env sample_probe new_entry (Response 200) logged_once
       = Inr logged_once"
    using t[where status = 200, THEN conjunct2, THEN conjunct1] good by (rule mp)
  from t[where status = 500, THEN conjunct2, THEN conjunct2, THEN conjunct1] bad
  obtain st1 where s1: "sendToTestServer_settle sample_env sample_probe new_entry (Response 500) logged_once
        = Inr st1"
    and s2: "has_window sample_env \<and> (\<forall>xs. session_setItem_ok sample_env xs)
      \<and> session logged_once \<noteq> Corrupt
      \<and> list_all stringify_ok (stored_entries (session logged_once)) \<and> stringify_ok new_entry
      \<longrightarrow> st1 = logged_once\<lparr>session := Stored (keep_last 100
            (stored_entries (session logged_once) @ [failed_entry sample_probe 500 new_entry]))\<rparr>"
    by blast
  from s2 w have "st1 = logged_once\<lparr>session := Stored (keep_last 100
            (stored_entries (session logged_once) @ [failed_entry sample_probe 500 new_entry]))\<rparr>"
    by (rule mp)
  then have c: "sendToTestServer_settle sample_env sample_probe new_entry (Response 500) logged_once
       = Inr (logged_once\<lparr>session := Stored [new_entry, failed_entry sample_probe 500 new_entry]\<rparr>)"
    using s1 by (simp only: k1)
  from t[where status = 500, THEN conjunct2, THEN conjunct2, THEN conjunct2, THEN conjunct1]
  obtain st2 where r1: "sendToTestServer_settle sample_env sample_probe new_entry
        (Rejected ''Failed to fetch'') logged_once = Inr st2"
    and r2: "has_window sample_env \<and> (\<forall>xs. session_setItem_ok sample_env xs)
      \<and> session logged_once \<noteq> Corrupt
      \<and> list_all stringify_ok (stored_entries (session logged_once)) \<and> stringify_ok new_entry
      \<longrightarrow> st2 = logged_once\<lparr>session := Stored (keep_last 100
            (stored_entries (session logged_once)
               @ [unavailable_entry sample_probe (Error ''Failed to fetch'') new_entry]))\<rparr>"
    by blast
  from r2 w have "st2 = logged_once\<lparr>session := Stored (keep_last 100
            (stored_entries (session logged_once)
               @ [unavailable_entry sample_probe (Error ''Failed to fetch'') new_entry]))\<rparr>"
    by (rule mp)
  then have d: "sendToTestServer_settle sample_env sample_probe new_entry (Rejected ''Failed to fetch'') logged_once
       = Inr (logged_once\<lparr>session := Stored [new_entry,
            unavailable_entry sample_probe (Error ''Failed to fetch'') new_entry]\<rparr>)"
    using r1 by (simp only: k2)
  have m: "message (failed_entry sample_probe 500 new_entry) = ''Failed to send log to test server: 500''"
    by code_simp
  from a b c d m show ?thesis by (intro conjI)
qed

end
